theory Spec2Isabelle
  imports Complex_Main
begin

section \<open>Python values used by \<^verbatim>\<open>train.py\<close>\<close>

text \<open>
  The metrics that \<^verbatim>\<open>EarlyStopping.check\<close> compares are Python floats. A float is
  modelled as a real number, one of the two infinities, or NaN; rounding is not modelled.
  The comparisons are the IEEE ones Python uses: every comparison with NaN is false.
\<close>

datatype pyfloat = NInf | Fin real | PInf | NaN

fun float_le :: "pyfloat \<Rightarrow> pyfloat \<Rightarrow> bool" where
  "float_le NaN y = False"
| "float_le x NaN = False"
| "float_le NInf y = True"
| "float_le x PInf = True"
| "float_le (Fin a) (Fin b) = (a \<le> b)"
| "float_le PInf y = False"
| "float_le x NInf = False"

definition float_lt :: "pyfloat \<Rightarrow> pyfloat \<Rightarrow> bool" where
  "float_lt x y = (float_le x y \<and> x \<noteq> y)"

text \<open>\<^verbatim>\<open>a >= b\<close> and \<^verbatim>\<open>a > b\<close> on floats.\<close>

definition float_ge :: "pyfloat \<Rightarrow> pyfloat \<Rightarrow> bool" where
  "float_ge x y = float_le y x"

definition float_gt :: "pyfloat \<Rightarrow> pyfloat \<Rightarrow> bool" where
  "float_gt x y = float_lt y x"

text \<open>
  The builtins \<^verbatim>\<open>min(a, b)\<close> and \<^verbatim>\<open>max(a, b)\<close>: the first argument is kept
  unless the second is strictly smaller (strictly greater).
\<close>

definition py_min :: "pyfloat \<Rightarrow> pyfloat \<Rightarrow> pyfloat" where
  "py_min a b = (if float_lt b a then b else a)"

definition py_max :: "pyfloat \<Rightarrow> pyfloat \<Rightarrow> pyfloat" where
  "py_max a b = (if float_gt b a then b else a)"

text \<open>
  The exceptions the program can raise. \<open>NoneStateDict\<close> is what
  \<^verbatim>\<open>torch.nn.Module.load_state_dict\<close> raises when it is handed \<^verbatim>\<open>None\<close> instead of a
  state dictionary; \<open>AttributeError\<close> is the read of an attribute that was never set.
\<close>

datatype error = AssertionError | KeyError | ZeroDivisionError | NoneStateDict | AttributeError

text \<open>The dictionary \<^verbatim>\<open>evals\<close> and the subscription \<^verbatim>\<open>evals[key]\<close>.\<close>

type_synonym evals = "string \<rightharpoonup> pyfloat"

definition getitem :: "evals \<Rightarrow> string \<Rightarrow> error + pyfloat" where
  "getitem d k = (case d k of None \<Rightarrow> Inl KeyError | Some v \<Rightarrow> Inr v)"

section \<open>The framework\<close>

text \<open>
  Everything \<^verbatim>\<open>train.py\<close> delegates to torch is a parameter of the model: the model object
  \<open>'m\<close>, its state dictionary \<open>'sd\<close>, the optimizer \<open>'o\<close>, the dataset \<open>'d\<close> and the
  state \<open>'g\<close> of the random number generator that parameter initialisation and training
  draw from. \<open>optimize\<close> stands for lines 89 to 93 of \<^verbatim>\<open>Trainer.train\<close> (zero the
  gradients, forward pass, loss on the training mask, backward pass, optimizer step);
  \<open>nll_loss\<close>, \<open>num_correct\<close> and \<open>mask_sum\<close> are the three quantities
  \<^verbatim>\<open>Trainer.evaluate\<close> reads off the forward pass for the mask named by a key.
\<close>

record ('m, 'sd, 'o, 'd, 'g) torch =
  get_state_dict :: "'m \<Rightarrow> 'sd"
  load_state_dict :: "'m \<Rightarrow> 'sd \<Rightarrow> 'm"
  Adam :: "'m \<Rightarrow> real \<Rightarrow> real \<Rightarrow> 'o"
  to_device :: "'m \<Rightarrow> 'm"
  data_to_device :: "'d \<Rightarrow> 'd"
  reset_parameters :: "'m \<Rightarrow> 'g \<Rightarrow> 'm \<times> 'g"
  train_mode :: "'m \<Rightarrow> 'm"
  eval_mode :: "'m \<Rightarrow> 'm"
  optimize :: "'m \<Rightarrow> 'o \<Rightarrow> 'd \<Rightarrow> 'g \<Rightarrow> 'm \<times> 'o \<times> 'g"
  nll_loss :: "'m \<Rightarrow> 'd \<Rightarrow> string \<Rightarrow> pyfloat"
  num_correct :: "'m \<Rightarrow> 'd \<Rightarrow> string \<Rightarrow> int"
  mask_sum :: "'d \<Rightarrow> string \<Rightarrow> int"

section \<open>\<^verbatim>\<open>EarlyStopping\<close>\<close>

record 'sd EarlyStopping =
  patience :: int
  use_loss :: bool
  use_acc :: bool
  save_model :: bool
  verbose :: bool
  counter :: int
  best_val_loss :: pyfloat
  best_val_acc :: pyfloat
  state_dict :: "'sd option"

text \<open>\<^verbatim>\<open>EarlyStopping.__init__\<close>: the assertion, then the nine attributes.\<close>

definition EarlyStopping_init ::
  "int \<Rightarrow> bool \<Rightarrow> bool \<Rightarrow> bool \<Rightarrow> bool \<Rightarrow> error + 'sd EarlyStopping" where
  "EarlyStopping_init p v ul ua sm =
     (if ul \<or> ua then
        Inr \<lparr>patience = p, use_loss = ul, use_acc = ua, save_model = sm, verbose = v,
             counter = 0, best_val_loss = PInf, best_val_acc = Fin 0, state_dict = None\<rparr>
      else Inl AssertionError)"

text \<open>\<^verbatim>\<open>EarlyStopping.reset\<close>.\<close>

definition EarlyStopping_reset :: "'sd EarlyStopping \<Rightarrow> 'sd EarlyStopping" where
  "EarlyStopping_reset es =
     es\<lparr>counter := 0, best_val_loss := PInf, best_val_acc := Fin 0, state_dict := None\<rparr>"

text \<open>
  Lines 31 to 57 of \<^verbatim>\<open>EarlyStopping.check\<close>: the update of the tracking state. The
  dictionary is read before anything is assigned, so a missing key raises \<open>KeyError\<close>
  with the object unchanged. \<open>sd\<close> is \<^verbatim>\<open>deepcopy(model.state_dict())\<close>.
\<close>

definition check_update ::
  "'sd EarlyStopping \<Rightarrow> evals \<Rightarrow> 'sd \<Rightarrow> error + 'sd EarlyStopping" where
  "check_update es evals sd =
     (if use_loss es \<and> use_acc es then
        (case getitem evals ''val_loss'' of
           Inl e \<Rightarrow> Inl e
         | Inr vl \<Rightarrow>
             (case getitem evals ''val_acc'' of
                Inl e \<Rightarrow> Inl e
              | Inr va \<Rightarrow>
                  if float_le vl (best_val_loss es) \<or> float_ge va (best_val_acc es) then
                    Inr (es\<lparr>state_dict :=
                               (if float_le vl (best_val_loss es) \<and> float_ge va (best_val_acc es)
                                   \<and> save_model es
                                then Some sd else state_dict es),
                             best_val_loss := py_min (best_val_loss es) vl,
                             best_val_acc := py_max (best_val_acc es) va,
                             counter := 0\<rparr>)
                  else Inr (es\<lparr>counter := counter es + 1\<rparr>)))
      else if use_loss es then
        (case getitem evals ''val_loss'' of
           Inl e \<Rightarrow> Inl e
         | Inr vl \<Rightarrow>
             if float_lt vl (best_val_loss es) then
               Inr (es\<lparr>best_val_loss := vl, counter := 0,
                        state_dict := (if save_model es then Some sd else state_dict es)\<rparr>)
             else Inr (es\<lparr>counter := counter es + 1\<rparr>))
      else if use_acc es then
        (case getitem evals ''val_acc'' of
           Inl e \<Rightarrow> Inl e
         | Inr va \<Rightarrow>
             if float_gt va (best_val_acc es) then
               Inr (es\<lparr>best_val_acc := va, counter := 0,
                        state_dict := (if save_model es then Some sd else state_dict es)\<rparr>)
             else Inr (es\<lparr>counter := counter es + 1\<rparr>))
      else Inr es)"

text \<open>
  \<^verbatim>\<open>EarlyStopping.check(evals, model, epoch)\<close>. The result is the object after the call,
  the model after the call, and the outcome: the value returned or the exception raised.
  The assignments of lines 31 to 57 stay in place when line 64 raises. \<open>epoch\<close> is only
  printed; console output is not part of the model.
\<close>

definition check ::
  "('m, 'sd, 'o, 'd, 'g) torch \<Rightarrow> 'sd EarlyStopping \<Rightarrow> evals \<Rightarrow> 'm \<Rightarrow> int
     \<Rightarrow> 'sd EarlyStopping \<times> 'm \<times> (error + bool)" where
  "check T es evals m epoch =
     (case check_update es evals (get_state_dict T m) of
        Inl e \<Rightarrow> (es, m, Inl e)
      | Inr es' \<Rightarrow>
          if counter es' \<ge> patience es' then
            (if save_model es' then
               (case state_dict es' of
                  None \<Rightarrow> (es', m, Inl NoneStateDict)
                | Some sd \<Rightarrow> (es', load_state_dict T m sd, Inr True))
             else (es', m, Inr True))
          else (es', m, Inr False))"

text \<open>
  A sequence of \<^verbatim>\<open>check\<close> calls on one object, each with its own dictionary, model and
  epoch number. A call that raises leaves the object as \<open>check\<close> left it, and the next
  call goes on from there.
\<close>

fun check_calls ::
  "('m, 'sd, 'o, 'd, 'g) torch \<Rightarrow> 'sd EarlyStopping \<Rightarrow> (evals \<times> 'm \<times> int) list
     \<Rightarrow> 'sd EarlyStopping" where
  "check_calls T es [] = es"
| "check_calls T es ((ev, m, epoch) # cs) = check_calls T (fst (check T es ev m epoch)) cs"

text \<open>
  The metrics a sequence of calls has seen. A call sees a dictionary when the keys that
  the enabled criteria read are present; otherwise it raises \<open>KeyError\<close> before it
  compares anything.
\<close>

definition readable :: "'sd EarlyStopping \<Rightarrow> evals \<Rightarrow> bool" where
  "readable es ev =
     ((if use_loss es then ev ''val_loss'' \<noteq> None else True) \<and>
      (if use_acc es then ev ''val_acc'' \<noteq> None else True))"

definition seen_losses :: "'sd EarlyStopping \<Rightarrow> (evals \<times> 'm \<times> int) list \<Rightarrow> pyfloat list" where
  "seen_losses es cs =
     List.map_filter (\<lambda>(ev, m, epoch). if readable es ev then ev ''val_loss'' else None) cs"

definition seen_accs :: "'sd EarlyStopping \<Rightarrow> (evals \<times> 'm \<times> int) list \<Rightarrow> pyfloat list" where
  "seen_accs es cs =
     List.map_filter (\<lambda>(ev, m, epoch). if readable es ev then ev ''val_acc'' else None) cs"

section \<open>\<^verbatim>\<open>numpy.mean\<close> and \<^verbatim>\<open>numpy.std\<close>\<close>

text \<open>
  The two numpy functions that \<^verbatim>\<open>Trainer.run\<close> imports and calls on a list of floats.
  Like the operations of torch they belong to a library and are parameters here: what
  they compute, in double precision and in numpy's order of summation, is numpy's
  business, and the properties of \<^verbatim>\<open>run\<close> below hold whatever they return.
\<close>

record numpy =
  mean :: "pyfloat list \<Rightarrow> pyfloat"
  std :: "pyfloat list \<Rightarrow> pyfloat"

section \<open>\<^verbatim>\<open>Trainer\<close>\<close>

record ('m, 'sd, 'o, 'd) Trainer =
  model :: 'm
  optimizer :: 'o
  data :: 'd
  lr :: real
  weight_decay :: real
  epochs :: int
  trainer_verbose :: bool
  niter :: int
  early_stopping :: bool
  stop_checker :: "'sd EarlyStopping option"


text \<open>\<^verbatim>\<open>Trainer.train\<close>: one optimisation step on the training mask.\<close>

definition train ::
  "('m, 'sd, 'o, 'd, 'g) torch \<Rightarrow> ('m, 'sd, 'o, 'd) Trainer \<Rightarrow> 'g
     \<Rightarrow> ('m, 'sd, 'o, 'd) Trainer \<times> 'g" where
  "train T tr g =
     (case optimize T (train_mode T (model tr)) (optimizer tr) (data tr) g of
        (m, opt, g') \<Rightarrow> (tr\<lparr>model := m, optimizer := opt\<rparr>, g'))"

text \<open>
  \<^verbatim>\<open>Trainer.evaluate\<close>: the loop over the three keys fills the dictionary. The accuracy
  is a quotient of two Python integers, so an empty mask raises \<open>ZeroDivisionError\<close>.
\<close>

fun evaluate_keys ::
  "('m, 'sd, 'o, 'd, 'g) torch \<Rightarrow> 'm \<Rightarrow> 'd \<Rightarrow> string list \<Rightarrow> evals \<Rightarrow> error + evals" where
  "evaluate_keys T m d [] outputs = Inr outputs"
| "evaluate_keys T m d (key # keys) outputs =
     (if mask_sum T d key = 0 then Inl ZeroDivisionError
      else evaluate_keys T m d keys
             (outputs(key @ ''_loss'' \<mapsto> nll_loss T m d key,
                      key @ ''_acc'' \<mapsto>
                        Fin (real_of_int (num_correct T m d key) / real_of_int (mask_sum T d key)))))"

definition evaluate ::
  "('m, 'sd, 'o, 'd, 'g) torch \<Rightarrow> ('m, 'sd, 'o, 'd) Trainer
     \<Rightarrow> error + (('m, 'sd, 'o, 'd) Trainer \<times> evals)" where
  "evaluate T tr =
     (let m = eval_mode T (model tr) in
      case evaluate_keys T m (data tr) [''train'', ''val'', ''test''] Map.empty of
        Inl e \<Rightarrow> Inl e
      | Inr outputs \<Rightarrow> Inr (tr\<lparr>model := m\<rparr>, outputs))"

text \<open>\<^verbatim>\<open>Trainer.reset\<close>.\<close>

definition Trainer_reset ::
  "('m, 'sd, 'o, 'd, 'g) torch \<Rightarrow> ('m, 'sd, 'o, 'd) Trainer \<Rightarrow> 'g
     \<Rightarrow> error + (('m, 'sd, 'o, 'd) Trainer \<times> 'g)" where
  "Trainer_reset T tr g =
     (let opt = Adam T (model tr) (lr tr) (weight_decay tr) in
      case reset_parameters T (to_device T (model tr)) g of
        (m, g') \<Rightarrow>
          if early_stopping tr then
            (case stop_checker tr of
               None \<Rightarrow> Inl AttributeError
             | Some sc \<Rightarrow>
                 Inr (tr\<lparr>optimizer := opt, model := m,
                          stop_checker := Some (EarlyStopping_reset sc)\<rparr>, g'))
          else Inr (tr\<lparr>optimizer := opt, model := m\<rparr>, g'))"

text \<open>
  The epoch loop of \<^verbatim>\<open>Trainer.run\<close> (lines 134 to 147), over the epoch numbers still to
  run. Beside the outcome it returns a log with one entry for every iteration it began:
  \<open>True\<close> for an iteration that left the loop through \<^verbatim>\<open>break\<close>, \<open>False\<close> otherwise.
\<close>

fun epoch_loop ::
  "('m, 'sd, 'o, 'd, 'g) torch \<Rightarrow> ('m, 'sd, 'o, 'd) Trainer \<Rightarrow> 'g \<Rightarrow> int list
     \<Rightarrow> bool list \<times> (error + (('m, 'sd, 'o, 'd) Trainer \<times> 'g))" where
  "epoch_loop T tr g [] = ([], Inr (tr, g))"
| "epoch_loop T tr g (epoch # rest) =
     (case train T tr g of
        (tr1, g1) \<Rightarrow>
          (case evaluate T tr1 of
             Inl e \<Rightarrow> ([False], Inl e)
           | Inr (tr2, evals) \<Rightarrow>
               if early_stopping tr2 then
                 (case stop_checker tr2 of
                    None \<Rightarrow> ([False], Inl AttributeError)
                  | Some sc \<Rightarrow>
                      (case check T sc evals (model tr2) epoch of
                         (sc', m', Inl e) \<Rightarrow> ([False], Inl e)
                       | (sc', m', Inr stop) \<Rightarrow>
                           if stop then
                             ([True], Inr (tr2\<lparr>stop_checker := Some sc', model := m'\<rparr>, g1))
                           else
                             (case epoch_loop T (tr2\<lparr>stop_checker := Some sc', model := m'\<rparr>)
                                     g1 rest of
                                (elog, r) \<Rightarrow> (False # elog, r))))
               else
                 (case epoch_loop T tr2 g1 rest of (elog, r) \<Rightarrow> (False # elog, r))))"

text \<open>
  One restart: the body of the outer loop (lines 130 to 158). It returns the log of its
  epoch loop and, when nothing raised, the trainer, the generator and the two accuracies
  that are appended to the lists.
\<close>

definition restart ::
  "('m, 'sd, 'o, 'd, 'g) torch \<Rightarrow> ('m, 'sd, 'o, 'd) Trainer \<Rightarrow> 'g
     \<Rightarrow> bool list \<times> (error + (('m, 'sd, 'o, 'd) Trainer \<times> 'g \<times> pyfloat \<times> pyfloat))" where
  "restart T tr g =
     (case Trainer_reset T tr g of
        Inl e \<Rightarrow> ([], Inl e)
      | Inr (tr1, g1) \<Rightarrow>
          (case epoch_loop T tr1 g1 [1..epochs tr1] of
             (elog, Inl e) \<Rightarrow> (elog, Inl e)
           | (elog, Inr (tr2, g2)) \<Rightarrow>
               (case evaluate T tr2 of
                  Inl e \<Rightarrow> (elog, Inl e)
                | Inr (tr3, evals) \<Rightarrow>
                    (case getitem evals ''val_acc'' of
                       Inl e \<Rightarrow> (elog, Inl e)
                     | Inr va \<Rightarrow>
                         (case getitem evals ''test_acc'' of
                            Inl e \<Rightarrow> (elog, Inl e)
                          | Inr ta \<Rightarrow> (elog, Inr (tr3, g2, va, ta)))))))"

text \<open>
  The outer loop over \<^verbatim>\<open>range(self.niter)\<close>, with the two lists as accumulators. The
  log has one entry, the log of its epoch loop, for every restart begun.
\<close>

fun restart_loop ::
  "('m, 'sd, 'o, 'd, 'g) torch \<Rightarrow> ('m, 'sd, 'o, 'd) Trainer \<Rightarrow> 'g \<Rightarrow> int list
     \<Rightarrow> pyfloat list \<Rightarrow> pyfloat list
     \<Rightarrow> bool list list
        \<times> (error + (('m, 'sd, 'o, 'd) Trainer \<times> 'g \<times> pyfloat list \<times> pyfloat list))" where
  "restart_loop T tr g [] val_acc_list test_acc_list =
     ([], Inr (tr, g, val_acc_list, test_acc_list))"
| "restart_loop T tr g (i # rest) val_acc_list test_acc_list =
     (case restart T tr g of
        (elog, Inl e) \<Rightarrow> ([elog], Inl e)
      | (elog, Inr (tr', g', va, ta)) \<Rightarrow>
          (case restart_loop T tr' g' rest (val_acc_list @ [va]) (test_acc_list @ [ta]) of
             (elogs, r) \<Rightarrow> (elog # elogs, r)))"

text \<open>\<^verbatim>\<open>Trainer.run\<close>: the restarts, then the dictionary of statistics.\<close>

definition run ::
  "numpy \<Rightarrow> ('m, 'sd, 'o, 'd, 'g) torch \<Rightarrow> ('m, 'sd, 'o, 'd) Trainer \<Rightarrow> 'g
     \<Rightarrow> bool list list \<times> (error + (('m, 'sd, 'o, 'd) Trainer \<times> 'g \<times> evals))" where
  "run N T tr g =
     (case restart_loop T tr g [0..niter tr - 1] [] [] of
        (elogs, Inl e) \<Rightarrow> (elogs, Inl e)
      | (elogs, Inr (tr', g', val_acc_list, test_acc_list)) \<Rightarrow>
          (elogs, Inr (tr', g',
             [''val_acc'' \<mapsto> mean N val_acc_list,
              ''test_acc'' \<mapsto> mean N test_acc_list,
              ''test_acc_std'' \<mapsto> std N test_acc_list])))"

section \<open>Notions used to state the properties of \<^verbatim>\<open>Trainer.run\<close>\<close>

text \<open>
  \<open>same_setup\<close>: two trainer states agree on the data and on every configuration
  attribute, and their early-stopping objects agree on \<^verbatim>\<open>save_model\<close>.
  \<open>masks_nonempty\<close>: none of the three masks is empty. \<open>checker_without_save\<close>: when
  early stopping is enabled, the early-stopping object exists and has \<^verbatim>\<open>save_model\<close>
  off (the default of \<^verbatim>\<open>Trainer.__init__\<close>).
\<close>

definition same_setup ::
  "('m, 'sd, 'o, 'd) Trainer \<Rightarrow> ('m, 'sd, 'o, 'd) Trainer \<Rightarrow> bool" where
  "same_setup tr tr' =
     (data tr' = data tr \<and> lr tr' = lr tr \<and> weight_decay tr' = weight_decay tr
      \<and> epochs tr' = epochs tr \<and> niter tr' = niter tr
      \<and> early_stopping tr' = early_stopping tr \<and> trainer_verbose tr' = trainer_verbose tr
      \<and> map_option save_model (stop_checker tr') = map_option save_model (stop_checker tr))"

definition masks_nonempty :: "('m, 'sd, 'o, 'd, 'g) torch \<Rightarrow> 'd \<Rightarrow> bool" where
  "masks_nonempty T d =
     (mask_sum T d ''train'' \<noteq> 0 \<and> mask_sum T d ''val'' \<noteq> 0 \<and> mask_sum T d ''test'' \<noteq> 0)"

definition checker_without_save :: "('m, 'sd, 'o, 'd) Trainer \<Rightarrow> bool" where
  "checker_without_save tr =
     (if early_stopping tr then map_option save_model (stop_checker tr) = Some False else True)"


text \<open>
  \<open>accuracy\<close>: the accuracy of a model on the mask named by a key, the quotient of
  line 112. \<open>restarts\<close>: the trainer and the generator as the first \<open>n\<close> passes through
  the body of the outer loop leave them.
\<close>

definition accuracy ::
  "('m, 'sd, 'o, 'd, 'g) torch \<Rightarrow> 'm \<Rightarrow> 'd \<Rightarrow> string \<Rightarrow> error + pyfloat" where
  "accuracy T m d key =
     (if mask_sum T d key = 0 then Inl ZeroDivisionError
      else Inr (Fin (real_of_int (num_correct T m d key) / real_of_int (mask_sum T d key))))"

fun restarts ::
  "('m, 'sd, 'o, 'd, 'g) torch \<Rightarrow> ('m, 'sd, 'o, 'd) Trainer \<Rightarrow> 'g \<Rightarrow> nat
     \<Rightarrow> error + (('m, 'sd, 'o, 'd) Trainer \<times> 'g)" where
  "restarts T tr g 0 = Inr (tr, g)"
| "restarts T tr g (Suc n) =
     (case snd (restart T tr g) of
        Inl e \<Rightarrow> Inl e
      | Inr (tr', g', va, ta) \<Rightarrow> restarts T tr' g' n)"

text \<open>
  \<open>run_lists\<close>: the two lists \<^verbatim>\<open>val_acc_list\<close> and \<^verbatim>\<open>test_acc_list\<close> as they stand after
  the outer loop of \<^verbatim>\<open>run\<close>. \<open>run_entry\<close>: the entry of the dictionary that \<^verbatim>\<open>run\<close>
  returns under a key.
\<close>

definition run_lists ::
  "('m, 'sd, 'o, 'd, 'g) torch \<Rightarrow> ('m, 'sd, 'o, 'd) Trainer \<Rightarrow> 'g
     \<Rightarrow> error + (pyfloat list \<times> pyfloat list)" where
  "run_lists T tr g =
     (case snd (restart_loop T tr g [0..niter tr - 1] [] []) of
        Inl e \<Rightarrow> Inl e
      | Inr (tr', g', val_acc_list, test_acc_list) \<Rightarrow> Inr (val_acc_list, test_acc_list))"

definition run_entry ::
  "numpy \<Rightarrow> ('m, 'sd, 'o, 'd, 'g) torch \<Rightarrow> ('m, 'sd, 'o, 'd) Trainer \<Rightarrow> 'g \<Rightarrow> string
     \<Rightarrow> error + pyfloat" where
  "run_entry N T tr g key =
     (case snd (run N T tr g) of
        Inl e \<Rightarrow> Inl e
      | Inr (tr', g', res) \<Rightarrow> getitem res key)"

text \<open>
  The variance of a list of floats, in the words of the specification ("mean/variance
  accuracy statistics"): the mean of the squared deviations from the mean, on finite
  values.
\<close>

fun reals_of :: "pyfloat list \<Rightarrow> real list option" where
  "reals_of [] = Some []"
| "reals_of (Fin r # xs) = map_option ((#) r) (reals_of xs)"
| "reals_of (x # xs) = None"

definition mean_real :: "real list \<Rightarrow> real" where
  "mean_real rs = sum_list rs / real (length rs)"

definition variance_real :: "real list \<Rightarrow> real" where
  "variance_real rs = mean_real (map (\<lambda>x. \<bar>x - mean_real rs\<bar> ^ 2) rs)"

definition variance :: "pyfloat list \<Rightarrow> pyfloat" where
  "variance xs =
     (if xs = [] then NaN
      else case reals_of xs of
             Some rs \<Rightarrow> Fin (variance_real rs)
           | None \<Rightarrow> NaN)"

section \<open>A small framework instance\<close>

text \<open>
  A concrete framework for evaluating the functions above: the model is an integer, its
  state dictionary is that integer, initialisation draws the next integer from the
  generator, the optimizer is the number of steps it has taken, a training step leaves
  the model as it is, the validation mask has two nodes and the other two masks one, and
  the number of correct predictions is the model itself. \<open>demo_torch_empty_test\<close> is the
  same framework on a dataset whose test mask selects no node.
\<close>

definition demo_torch :: "(int, int, int, unit, int) torch" where
  "demo_torch =
     \<lparr>get_state_dict = (\<lambda>m. m), load_state_dict = (\<lambda>m sd. sd), Adam = (\<lambda>m l wd. 0),
      to_device = (\<lambda>m. m), data_to_device = (\<lambda>d. d),
      reset_parameters = (\<lambda>m g. (g, g + 1)), train_mode = (\<lambda>m. m), eval_mode = (\<lambda>m. m),
      optimize = (\<lambda>m opt d g. (m, opt + 1, g)), nll_loss = (\<lambda>m d key. Fin 1),
      num_correct = (\<lambda>m d key. m), mask_sum = (\<lambda>d key. if key = ''val'' then 2 else 1)\<rparr>"

definition demo_torch_empty_test :: "(int, int, int, unit, int) torch" where
  "demo_torch_empty_test =
     demo_torch\<lparr>mask_sum := (\<lambda>d key. if key = ''test'' then 0 else 1)\<rparr>"

text \<open>
  An instance of numpy that computes the mean and the population standard deviation
  (\<^verbatim>\<open>ddof=0\<close>) of finite values without rounding. numpy rounds every operation to a
  double; the two agree where every operand and every intermediate result is a double,
  as for the lists \<^verbatim>\<open>[0.0, 0.5]\<close> and \<^verbatim>\<open>[0.0, 1.0]\<close> that the examples below evaluate.
\<close>

definition demo_numpy :: numpy where
  "demo_numpy =
     \<lparr>mean = (\<lambda>xs. case reals_of xs of
                     Some rs \<Rightarrow> if rs = [] then NaN else Fin (mean_real rs)
                   | None \<Rightarrow> NaN),
      std = (\<lambda>xs. case reals_of xs of
                    Some rs \<Rightarrow> if rs = [] then NaN else Fin (sqrt (variance_real rs))
                  | None \<Rightarrow> NaN)\<rparr>"

definition demo_evals :: "real \<Rightarrow> real \<Rightarrow> evals" where
  "demo_evals l a = [''val_loss'' \<mapsto> Fin l, ''val_acc'' \<mapsto> Fin a]"

definition demo_stopper :: "int \<Rightarrow> bool \<Rightarrow> bool \<Rightarrow> bool \<Rightarrow> int EarlyStopping" where
  "demo_stopper p ul ua sm =
     \<lparr>patience = p, use_loss = ul, use_acc = ua, save_model = sm, verbose = False,
      counter = 0, best_val_loss = PInf, best_val_acc = Fin 0, state_dict = None\<rparr>"

text \<open>
  Trainers over this framework: one without early stopping; one that stops on the
  validation loss with patience 1 and does not save checkpoints; one in the middle of
  training, with five optimizer steps taken and an early-stopping object on both
  criteria that has kept a checkpoint and counted two calls without improvement; and the
  one that
  \<^verbatim>\<open>Trainer(model, data, lr, weight_decay, epochs, niter, True, 1, False, True, True, False)\<close>
  constructs, which stops on the validation accuracy with patience 1 and saves
  checkpoints.
\<close>

definition demo_trainer :: "int \<Rightarrow> int \<Rightarrow> (int, int, int, unit) Trainer" where
  "demo_trainer ep ni =
     \<lparr>model = 0, optimizer = 0, data = (), lr = 1 / 100, weight_decay = 0, epochs = ep,
      trainer_verbose = False, niter = ni, early_stopping = False, stop_checker = None\<rparr>"


definition demo_trainer_used :: "(int, int, int, unit) Trainer" where
  "demo_trainer_used =
     (demo_trainer 3 1)\<lparr>model := 9, optimizer := 5, early_stopping := True,
        stop_checker :=
          Some ((demo_stopper 3 True True True)\<lparr>counter := 2, best_val_loss := Fin (1 / 2),
                  best_val_acc := Fin (3 / 4), state_dict := Some 7\<rparr>)\<rparr>"



section \<open>Facts about the float comparisons\<close>

lemma float_lt_not_NaN: "float_lt x y \<Longrightarrow> x \<noteq> NaN \<and> y \<noteq> NaN"
  by (cases x; cases y) (auto simp: float_lt_def)

lemma float_le_refl: "x \<noteq> NaN \<Longrightarrow> float_le x x"
  by (cases x) auto

lemma float_le_trans: "float_le x y \<Longrightarrow> float_le y z \<Longrightarrow> float_le x z"
  by (cases x; cases y; cases z) auto

lemma float_lt_imp_le: "float_lt x y \<Longrightarrow> float_le x y"
  by (simp add: float_lt_def)

lemma not_float_lt: "x \<noteq> NaN \<Longrightarrow> y \<noteq> NaN \<Longrightarrow> \<not> float_lt x y \<Longrightarrow> float_le y x"
  by (cases x; cases y) (auto simp: float_lt_def)

lemma py_min_le: "b \<noteq> NaN \<Longrightarrow> float_le (py_min b x) b"
  by (auto simp: py_min_def float_lt_imp_le float_le_refl)

lemma py_min_not_NaN: "b \<noteq> NaN \<Longrightarrow> py_min b x \<noteq> NaN"
  by (auto simp: py_min_def dest: float_lt_not_NaN)

lemma py_min_le2: "b \<noteq> NaN \<Longrightarrow> x \<noteq> NaN \<Longrightarrow> float_le (py_min b x) x"
  by (auto simp: py_min_def float_le_refl not_float_lt)

lemma py_max_ge: "b \<noteq> NaN \<Longrightarrow> float_le b (py_max b x)"
  by (auto simp: py_max_def float_gt_def float_lt_imp_le float_le_refl)

lemma py_max_not_NaN: "b \<noteq> NaN \<Longrightarrow> py_max b x \<noteq> NaN"
  by (auto simp: py_max_def float_gt_def dest: float_lt_not_NaN)

lemma py_max_ge2: "b \<noteq> NaN \<Longrightarrow> x \<noteq> NaN \<Longrightarrow> float_le x (py_max b x)"
  by (auto simp: py_max_def float_gt_def float_le_refl not_float_lt)

lemma foldl_py_min:
  "b0 \<noteq> NaN \<Longrightarrow>
     foldl py_min b0 xs \<noteq> NaN \<and> foldl py_min b0 xs \<in> set (b0 # xs) \<and>
     (\<forall>x\<in>set (b0 # xs). x \<noteq> NaN \<longrightarrow> float_le (foldl py_min b0 xs) x)"
proof (induction xs rule: rev_induct)
  case Nil
  then show ?case by (simp add: float_le_refl)
next
  case (snoc x xs)
  let ?b = "foldl py_min b0 xs"
  from snoc have b: "?b \<noteq> NaN" and mem: "?b \<in> set (b0 # xs)"
    and least: "\<forall>y\<in>set (b0 # xs). y \<noteq> NaN \<longrightarrow> float_le ?b y" by auto
  have 1: "py_min ?b x \<noteq> NaN" using b by (rule py_min_not_NaN)
  have 2: "py_min ?b x \<in> set (b0 # xs @ [x])" using mem by (auto simp: py_min_def)
  have 3: "float_le (py_min ?b x) y" if "y \<in> set (b0 # xs @ [x])" "y \<noteq> NaN" for y
  proof (cases "y = x")
    case True
    then show ?thesis using b that py_min_le2 by blast
  next
    case False
    then have "y \<in> set (b0 # xs)" using that by auto
    then have "float_le ?b y" using that least by blast
    then show ?thesis using py_min_le[OF b] float_le_trans by blast
  qed
  show ?case using 1 2 3 by simp
qed

lemma foldl_py_max:
  "b0 \<noteq> NaN \<Longrightarrow>
     foldl py_max b0 xs \<noteq> NaN \<and> foldl py_max b0 xs \<in> set (b0 # xs) \<and>
     (\<forall>x\<in>set (b0 # xs). x \<noteq> NaN \<longrightarrow> float_le x (foldl py_max b0 xs))"
proof (induction xs rule: rev_induct)
  case Nil
  then show ?case by (simp add: float_le_refl)
next
  case (snoc x xs)
  let ?b = "foldl py_max b0 xs"
  from snoc have b: "?b \<noteq> NaN" and mem: "?b \<in> set (b0 # xs)"
    and greatest: "\<forall>y\<in>set (b0 # xs). y \<noteq> NaN \<longrightarrow> float_le y ?b" by auto
  have 1: "py_max ?b x \<noteq> NaN" using b by (rule py_max_not_NaN)
  have 2: "py_max ?b x \<in> set (b0 # xs @ [x])" using mem by (auto simp: py_max_def)
  have 3: "float_le y (py_max ?b x)" if "y \<in> set (b0 # xs @ [x])" "y \<noteq> NaN" for y
  proof (cases "y = x")
    case True
    then show ?thesis using b that py_max_ge2 by blast
  next
    case False
    then have "y \<in> set (b0 # xs)" using that by auto
    then have "float_le y ?b" using that greatest by blast
    then show ?thesis using py_max_ge[OF b] float_le_trans by blast
  qed
  show ?case using 1 2 3 by simp
qed

section \<open>\<^verbatim>\<open>EarlyStopping\<close>: construction and reset\<close>

lemma init_fields:
  "EarlyStopping_init p v ul ua sm = Inr es0 \<Longrightarrow>
     es0 = \<lparr>patience = p, use_loss = ul, use_acc = ua, save_model = sm, verbose = v,
            counter = 0, best_val_loss = PInf, best_val_acc = Fin 0, state_dict = None\<rparr>"
  by (auto simp: EarlyStopping_init_def split: if_splits)

lemma fst_check:
  "fst (check T es ev m ep) =
     (case check_update es ev (get_state_dict T m) of Inl e \<Rightarrow> es | Inr es' \<Rightarrow> es')"
  by (simp add: check_def split: sum.splits option.splits)

lemma check_update_config:
  "check_update es ev sd = Inr es' \<Longrightarrow>
     patience es' = patience es \<and> use_loss es' = use_loss es \<and> use_acc es' = use_acc es
     \<and> save_model es' = save_model es \<and> verbose es' = verbose es"
  by (auto simp: check_update_def split: if_splits sum.splits)

lemma check_config:
  "patience (fst (check T es ev m ep)) = patience es
   \<and> use_loss (fst (check T es ev m ep)) = use_loss es
   \<and> use_acc (fst (check T es ev m ep)) = use_acc es
   \<and> save_model (fst (check T es ev m ep)) = save_model es
   \<and> verbose (fst (check T es ev m ep)) = verbose es"
  by (auto simp: fst_check dest: check_update_config split: sum.splits)

lemma check_calls_config:
  "patience (check_calls T es cs) = patience es \<and> use_loss (check_calls T es cs) = use_loss es
   \<and> use_acc (check_calls T es cs) = use_acc es
   \<and> save_model (check_calls T es cs) = save_model es
   \<and> verbose (check_calls T es cs) = verbose es"
  by (induction T es cs rule: check_calls.induct) (simp_all add: check_config)

lemma check_calls_snoc:
  "check_calls T es (cs @ [(ev, m, ep)]) = fst (check T (check_calls T es cs) ev m ep)"
  by (induction T es cs rule: check_calls.induct) simp_all

text \<open>
  Claim C8. Constructing an \<^verbatim>\<open>EarlyStopping\<close> with \<^verbatim>\<open>use_loss\<close> and \<^verbatim>\<open>use_acc\<close> both
  false fails with an assertion error; with any other combination it succeeds, and the
  new object has counter 0, best validation loss plus infinity, best validation
  accuracy 0 and no saved checkpoint.
\<close>

theorem EarlyStopping_init_spec:
  "(EarlyStopping_init p v False False sm :: error + 'sd EarlyStopping) = Inl AssertionError
   \<and> (ul \<or> ua \<longrightarrow>
        (EarlyStopping_init p v ul ua sm :: error + 'sd EarlyStopping) =
          Inr \<lparr>patience = p, use_loss = ul, use_acc = ua, save_model = sm, verbose = v,
               counter = 0, best_val_loss = PInf, best_val_acc = Fin 0, state_dict = None\<rparr>)"
  by (simp add: EarlyStopping_init_def)

theorem EarlyStopping_init_spec_witness:
  "(EarlyStopping_init 10 False False False True :: error + int EarlyStopping)
      = Inl AssertionError
   \<and> (EarlyStopping_init 10 False True False True :: error + int EarlyStopping) =
       Inr \<lparr>patience = 10, use_loss = True, use_acc = False, save_model = True,
            verbose = False, counter = 0, best_val_loss = PInf, best_val_acc = Fin 0,
            state_dict = None\<rparr>"
  using EarlyStopping_init_spec [of 10 False True True False, where 'sd = int]
  by simp

text \<open>
  Claim C9. After any sequence of \<^verbatim>\<open>check\<close> calls on a freshly constructed object,
  \<^verbatim>\<open>reset\<close> gives back exactly the freshly constructed object: the counter, the two best
  metrics and the saved checkpoint have their initial values and the five configuration
  fields are what the constructor was given. With the empty sequence of calls, reset
  right after construction changes nothing.
\<close>

theorem reset_restores_fresh_state:
  assumes "EarlyStopping_init p v ul ua sm = Inr es0"
  shows "EarlyStopping_reset (check_calls T es0 cs) = es0
         \<and> EarlyStopping_reset es0 = es0
         \<and> counter (EarlyStopping_reset (check_calls T es0 cs)) = 0
         \<and> best_val_loss (EarlyStopping_reset (check_calls T es0 cs)) = PInf
         \<and> best_val_acc (EarlyStopping_reset (check_calls T es0 cs)) = Fin 0
         \<and> state_dict (EarlyStopping_reset (check_calls T es0 cs)) = None
         \<and> patience (EarlyStopping_reset (check_calls T es0 cs)) = p
         \<and> use_loss (EarlyStopping_reset (check_calls T es0 cs)) = ul
         \<and> use_acc (EarlyStopping_reset (check_calls T es0 cs)) = ua
         \<and> save_model (EarlyStopping_reset (check_calls T es0 cs)) = sm
         \<and> verbose (EarlyStopping_reset (check_calls T es0 cs)) = v"
proof -
  note es0 = init_fields[OF assms]
  have "EarlyStopping_reset (check_calls T es0 cs) =
          \<lparr>patience = patience es0, use_loss = use_loss es0, use_acc = use_acc es0,
           save_model = save_model es0, verbose = verbose es0, counter = 0,
           best_val_loss = PInf, best_val_acc = Fin 0, state_dict = None\<rparr>"
    using check_calls_config[of T es0 cs] by (simp add: EarlyStopping_reset_def)
  then have 1: "EarlyStopping_reset (check_calls T es0 cs) = es0" by (simp add: es0)
  have 2: "EarlyStopping_reset es0 = es0" by (simp add: es0 EarlyStopping_reset_def)
  show ?thesis unfolding 1 2 by (simp add: es0)
qed

theorem reset_restores_fresh_state_witness:
  "EarlyStopping_init 2 False True True True = Inr (demo_stopper 2 True True True)
   \<and> EarlyStopping_reset
       (check_calls demo_torch (demo_stopper 2 True True True)
          [(demo_evals 1 (1/2), 7, 1), (demo_evals 2 (1/4), 8, 2)])
     = demo_stopper 2 True True True
   \<and> state_dict
       (check_calls demo_torch (demo_stopper 2 True True True)
          [(demo_evals 1 (1/2), 7, 1), (demo_evals 2 (1/4), 8, 2)]) = Some 7"
proof -
  have i: "EarlyStopping_init 2 False True True True = Inr (demo_stopper 2 True True True)"
    by (simp add: EarlyStopping_init_def demo_stopper_def)
  have s: "state_dict
       (check_calls demo_torch (demo_stopper 2 True True True)
          [(demo_evals 1 (1/2), 7, 1), (demo_evals 2 (1/4), 8, 2)]) = Some 7"
    by (simp add: fst_check check_update_def getitem_def demo_evals_def demo_stopper_def
          demo_torch_def float_ge_def py_min_def py_max_def float_lt_def float_gt_def)
  show ?thesis
    using reset_restores_fresh_state [OF i, of demo_torch
        "[(demo_evals 1 (1/2), 7, 1), (demo_evals 2 (1/4), 8, 2)]"] i s
    by simp
qed

section \<open>\<^verbatim>\<open>EarlyStopping.check\<close>: the best metrics\<close>

lemma check_update_KeyError:
  "(\<exists>e. check_update es ev sd = Inl e) \<longleftrightarrow> \<not> readable es ev"
  by (auto simp: check_update_def readable_def getitem_def split: option.splits if_splits)

lemma check_best_val_loss:
  "use_loss es \<Longrightarrow>
     best_val_loss (fst (check T es ev m ep)) =
       (if readable es ev then py_min (best_val_loss es) (the (ev ''val_loss'')) else best_val_loss es)"
  by (auto simp: fst_check check_update_def readable_def getitem_def py_min_def float_lt_imp_le
           split: option.splits)

lemma check_best_val_acc:
  "use_acc es \<Longrightarrow>
     best_val_acc (fst (check T es ev m ep)) =
       (if readable es ev then py_max (best_val_acc es) (the (ev ''val_acc'')) else best_val_acc es)"
  by (auto simp: fst_check check_update_def readable_def getitem_def py_max_def float_gt_def float_ge_def float_lt_imp_le
           split: option.splits)

lemma readable_cong:
  "use_loss es' = use_loss es \<Longrightarrow> use_acc es' = use_acc es \<Longrightarrow> readable es' = readable es"
  by (simp add: readable_def fun_eq_iff)

lemma seen_losses_cong:
  assumes "use_loss es' = use_loss es" "use_acc es' = use_acc es"
  shows "seen_losses es' cs = seen_losses es cs"
proof -
  have "readable es' = readable es" using assms by (rule readable_cong)
  then show ?thesis unfolding seen_losses_def by simp
qed

lemma seen_accs_cong:
  assumes "use_loss es' = use_loss es" "use_acc es' = use_acc es"
  shows "seen_accs es' cs = seen_accs es cs"
proof -
  have "readable es' = readable es" using assms by (rule readable_cong)
  then show ?thesis unfolding seen_accs_def by simp
qed


lemma seen_losses_Nil: "seen_losses es [] = []"
  by (simp add: seen_losses_def map_filter_simps)

lemma seen_accs_Nil: "seen_accs es [] = []"
  by (simp add: seen_accs_def map_filter_simps)

lemma seen_losses_Cons:
  "seen_losses es ((ev, m, ep) # cs) =
     (if readable es ev then
        (case ev ''val_loss'' of None \<Rightarrow> seen_losses es cs | Some x \<Rightarrow> x # seen_losses es cs)
      else seen_losses es cs)"
  by (simp add: seen_losses_def map_filter_simps split: option.splits)

lemma seen_accs_Cons:
  "seen_accs es ((ev, m, ep) # cs) =
     (if readable es ev then
        (case ev ''val_acc'' of None \<Rightarrow> seen_accs es cs | Some x \<Rightarrow> x # seen_accs es cs)
      else seen_accs es cs)"
  by (simp add: seen_accs_def map_filter_simps split: option.splits)

lemma check_calls_best_val_loss:
  "use_loss es \<Longrightarrow>
     best_val_loss (check_calls T es cs) = foldl py_min (best_val_loss es) (seen_losses es cs)"
proof (induction T es cs rule: check_calls.induct)
  case (1 T es)
  then show ?case by (simp add: seen_losses_Nil)
next
  case (2 T es ev m epoch cs)
  let ?es1 = "fst (check T es ev m epoch)"
  have cfg: "use_loss ?es1 = use_loss es" "use_acc ?es1 = use_acc es"
    using check_config[of T es ev m epoch] by simp_all
  have sc: "seen_losses ?es1 cs = seen_losses es cs"
    using cfg by (rule seen_losses_cong)
  have ih: "best_val_loss (check_calls T ?es1 cs) = foldl py_min (best_val_loss ?es1) (seen_losses es cs)"
    using "2.IH" "2.prems" cfg sc by simp
  show ?case
  proof (cases "readable es ev")
    case True
    then obtain x where x: "ev ''val_loss'' = Some x"
      using "2.prems" by (auto simp: readable_def)
    have "best_val_loss ?es1 = py_min (best_val_loss es) x"
      using check_best_val_loss[OF "2.prems", of T ev m epoch] True x by simp
    then show ?thesis using ih True x by (simp add: seen_losses_Cons)
  next
    case False
    have "best_val_loss ?es1 = best_val_loss es"
      using check_best_val_loss[OF "2.prems", of T ev m epoch] False by simp
    then show ?thesis using ih False by (simp add: seen_losses_Cons)
  qed
qed

lemma check_calls_best_val_acc:
  "use_acc es \<Longrightarrow>
     best_val_acc (check_calls T es cs) = foldl py_max (best_val_acc es) (seen_accs es cs)"
proof (induction T es cs rule: check_calls.induct)
  case (1 T es)
  then show ?case by (simp add: seen_accs_Nil)
next
  case (2 T es ev m epoch cs)
  let ?es1 = "fst (check T es ev m epoch)"
  have cfg: "use_loss ?es1 = use_loss es" "use_acc ?es1 = use_acc es"
    using check_config[of T es ev m epoch] by simp_all
  have sc: "seen_accs ?es1 cs = seen_accs es cs"
    using cfg by (rule seen_accs_cong)
  have ih: "best_val_acc (check_calls T ?es1 cs) = foldl py_max (best_val_acc ?es1) (seen_accs es cs)"
    using "2.IH" "2.prems" cfg sc by simp
  show ?case
  proof (cases "readable es ev")
    case True
    then obtain x where x: "ev ''val_acc'' = Some x"
      using "2.prems" by (auto simp: readable_def)
    have "best_val_acc ?es1 = py_max (best_val_acc es) x"
      using check_best_val_acc[OF "2.prems", of T ev m epoch] True x by simp
    then show ?thesis using ih True x by (simp add: seen_accs_Cons)
  next
    case False
    have "best_val_acc ?es1 = best_val_acc es"
      using check_best_val_acc[OF "2.prems", of T ev m epoch] False by simp
    then show ?thesis using ih False by (simp add: seen_accs_Cons)
  qed
qed

lemma check_best_val_loss_le:
  assumes "use_loss es" "best_val_loss es \<noteq> NaN"
  shows "float_le (best_val_loss (fst (check T es ev m ep))) (best_val_loss es)"
  using check_best_val_loss[OF assms(1), of T ev m ep] assms(2)
  by (simp add: py_min_le float_le_refl)

lemma check_best_val_acc_ge:
  assumes "use_acc es" "best_val_acc es \<noteq> NaN"
  shows "float_ge (best_val_acc (fst (check T es ev m ep))) (best_val_acc es)"
  using check_best_val_acc[OF assms(1), of T ev m ep] assms(2)
  by (simp add: py_max_ge float_le_refl float_ge_def)

lemma tracked_loss:
  assumes ul: "use_loss es0" and l0: "best_val_loss es0 = PInf"
  shows "best_val_loss (check_calls T es0 cs) = foldl py_min PInf (seen_losses es0 cs) \<and>
         best_val_loss (check_calls T es0 cs) \<in> set (PInf # seen_losses es0 cs) \<and>
         (\<forall>x\<in>set (PInf # seen_losses es0 cs). x \<noteq> NaN \<longrightarrow>
              float_le (best_val_loss (check_calls T es0 cs)) x) \<and>
         float_le (best_val_loss (check_calls T es0 (cs @ [(ev, m, ep)])))
                  (best_val_loss (check_calls T es0 cs))"
proof -
  let ?es = "check_calls T es0 cs"
  have cfg: "use_loss ?es" using check_calls_config[of T es0 cs] ul by simp
  have eq: "best_val_loss ?es = foldl py_min PInf (seen_losses es0 cs)"
    using check_calls_best_val_loss[OF ul, of T cs] l0 by simp
  have fp: "foldl py_min PInf (seen_losses es0 cs) \<noteq> NaN \<and>
        foldl py_min PInf (seen_losses es0 cs) \<in> set (PInf # seen_losses es0 cs) \<and>
        (\<forall>x\<in>set (PInf # seen_losses es0 cs). x \<noteq> NaN \<longrightarrow>
            float_le (foldl py_min PInf (seen_losses es0 cs)) x)"
    by (rule foldl_py_min) simp
  have nn: "best_val_loss ?es \<noteq> NaN" using eq fp by simp
  have step: "float_le (best_val_loss (check_calls T es0 (cs @ [(ev, m, ep)]))) (best_val_loss ?es)"
    unfolding check_calls_snoc using cfg nn by (rule check_best_val_loss_le)
  show ?thesis using eq fp step by simp
qed

lemma tracked_acc:
  assumes ua: "use_acc es0" and a0: "best_val_acc es0 = Fin 0"
  shows "best_val_acc (check_calls T es0 cs) = foldl py_max (Fin 0) (seen_accs es0 cs) \<and>
         best_val_acc (check_calls T es0 cs) \<in> set (Fin 0 # seen_accs es0 cs) \<and>
         (\<forall>x\<in>set (Fin 0 # seen_accs es0 cs). x \<noteq> NaN \<longrightarrow>
              float_ge (best_val_acc (check_calls T es0 cs)) x) \<and>
         float_ge (best_val_acc (check_calls T es0 (cs @ [(ev, m, ep)])))
                  (best_val_acc (check_calls T es0 cs))"
proof -
  let ?es = "check_calls T es0 cs"
  have cfg: "use_acc ?es" using check_calls_config[of T es0 cs] ua by simp
  have eq: "best_val_acc ?es = foldl py_max (Fin 0) (seen_accs es0 cs)"
    using check_calls_best_val_acc[OF ua, of T cs] a0 by simp
  have fp: "foldl py_max (Fin 0) (seen_accs es0 cs) \<noteq> NaN \<and>
        foldl py_max (Fin 0) (seen_accs es0 cs) \<in> set (Fin 0 # seen_accs es0 cs) \<and>
        (\<forall>x\<in>set (Fin 0 # seen_accs es0 cs). x \<noteq> NaN \<longrightarrow>
            float_le x (foldl py_max (Fin 0) (seen_accs es0 cs)))"
    by (rule foldl_py_max) simp
  have nn: "best_val_acc ?es \<noteq> NaN" using eq fp by simp
  have step: "float_ge (best_val_acc (check_calls T es0 (cs @ [(ev, m, ep)]))) (best_val_acc ?es)"
    unfolding check_calls_snoc using cfg nn by (rule check_best_val_acc_ge)
  show ?thesis using eq fp step by (simp add: float_ge_def)
qed

text \<open>
  Claim C2. On a freshly constructed object and for every sequence of \<^verbatim>\<open>check\<close> calls:
  when \<^verbatim>\<open>use_loss\<close> is enabled, \<^verbatim>\<open>best_val_loss\<close> after the calls is Python's \<^verbatim>\<open>min\<close>
  folded over plus infinity and the validation losses seen, it is one of these values
  and it is below every one of them that is not NaN (so it is their minimum), and one
  more call never increases it; when \<^verbatim>\<open>use_acc\<close> is enabled, the same holds for
  \<^verbatim>\<open>best_val_acc\<close> with \<^verbatim>\<open>max\<close>, the initial value 0 and the validation accuracies seen,
  and one more call never decreases it.
\<close>

theorem best_metrics_tracked:
  assumes init: "EarlyStopping_init p v ul ua sm = Inr es0"
  shows "(ul \<longrightarrow>
            best_val_loss (check_calls T es0 cs) = foldl py_min PInf (seen_losses es0 cs) \<and>
            best_val_loss (check_calls T es0 cs) \<in> set (PInf # seen_losses es0 cs) \<and>
            (\<forall>x\<in>set (PInf # seen_losses es0 cs). x \<noteq> NaN \<longrightarrow>
                 float_le (best_val_loss (check_calls T es0 cs)) x) \<and>
            float_le (best_val_loss (check_calls T es0 (cs @ [(ev, m, ep)])))
                     (best_val_loss (check_calls T es0 cs)))
       \<and> (ua \<longrightarrow>
            best_val_acc (check_calls T es0 cs) = foldl py_max (Fin 0) (seen_accs es0 cs) \<and>
            best_val_acc (check_calls T es0 cs) \<in> set (Fin 0 # seen_accs es0 cs) \<and>
            (\<forall>x\<in>set (Fin 0 # seen_accs es0 cs). x \<noteq> NaN \<longrightarrow>
                 float_ge (best_val_acc (check_calls T es0 cs)) x) \<and>
            float_ge (best_val_acc (check_calls T es0 (cs @ [(ev, m, ep)])))
                     (best_val_acc (check_calls T es0 cs)))"
proof -
  note f = init_fields[OF init]
  have l0: "best_val_loss es0 = PInf" and a0: "best_val_acc es0 = Fin 0"
    and ul: "use_loss es0 = ul" and ua: "use_acc es0 = ua" by (simp_all add: f)
  show ?thesis
  proof (intro conjI impI)
    assume ul
    then have "use_loss es0" using ul by simp
    from tracked_loss[OF this l0, of T cs ev m ep]
    show "best_val_loss (check_calls T es0 cs) = foldl py_min PInf (seen_losses es0 cs)"
      and "best_val_loss (check_calls T es0 cs) \<in> set (PInf # seen_losses es0 cs)"
      and "\<forall>x\<in>set (PInf # seen_losses es0 cs). x \<noteq> NaN \<longrightarrow>
                 float_le (best_val_loss (check_calls T es0 cs)) x"
      and "float_le (best_val_loss (check_calls T es0 (cs @ [(ev, m, ep)])))
                     (best_val_loss (check_calls T es0 cs))"
      by blast+
  next
    assume ua
    then have "use_acc es0" using ua by simp
    from tracked_acc[OF this a0, of T cs ev m ep]
    show "best_val_acc (check_calls T es0 cs) = foldl py_max (Fin 0) (seen_accs es0 cs)"
      and "best_val_acc (check_calls T es0 cs) \<in> set (Fin 0 # seen_accs es0 cs)"
      and "\<forall>x\<in>set (Fin 0 # seen_accs es0 cs). x \<noteq> NaN \<longrightarrow>
                 float_ge (best_val_acc (check_calls T es0 cs)) x"
      and "float_ge (best_val_acc (check_calls T es0 (cs @ [(ev, m, ep)])))
                     (best_val_acc (check_calls T es0 cs))"
      by blast+
  qed
qed

theorem best_metrics_tracked_witness:
  "EarlyStopping_init 2 False True True False = Inr (demo_stopper 2 True True False)
   \<and> best_val_loss
       (check_calls demo_torch (demo_stopper 2 True True False)
          [(demo_evals 1 (1/2), 7, 1), (demo_evals 2 (3/4), 8, 2)]) = Fin 1
   \<and> best_val_acc
       (check_calls demo_torch (demo_stopper 2 True True False)
          [(demo_evals 1 (1/2), 7, 1), (demo_evals 2 (3/4), 8, 2)]) = Fin (3/4)"
proof -
  have i: "EarlyStopping_init 2 False True True False = Inr (demo_stopper 2 True True False)"
    by (simp add: EarlyStopping_init_def demo_stopper_def)
  have r: "readable (demo_stopper 2 True True False) (demo_evals l a)" for l a
    by (simp add: readable_def demo_evals_def demo_stopper_def)
  have vl: "demo_evals l a ''val_loss'' = Some (Fin l)" for l a
    by (simp add: demo_evals_def)
  have va: "demo_evals l a ''val_acc'' = Some (Fin a)" for l a
    by (simp add: demo_evals_def)
  have sl: "seen_losses (demo_stopper 2 True True False)
          [(demo_evals 1 (1/2), 7::int, 1), (demo_evals 2 (3/4), 8, 2)] = [Fin 1, Fin 2]"
    by (simp add: seen_losses_Cons seen_losses_Nil r vl)
  have sa: "seen_accs (demo_stopper 2 True True False)
          [(demo_evals 1 (1/2), 7::int, 1), (demo_evals 2 (3/4), 8, 2)] = [Fin (1/2), Fin (3/4)]"
    by (simp add: seen_accs_Cons seen_accs_Nil r va)
  show ?thesis
    using best_metrics_tracked [OF i, of demo_torch
        "[(demo_evals 1 (1/2), 7, 1), (demo_evals 2 (3/4), 8, 2)]" "demo_evals 3 (1/4)" 9 3]
    by (simp add: i sl sa py_min_def py_max_def float_lt_def float_gt_def)
qed

section \<open>\<^verbatim>\<open>EarlyStopping.check\<close>: checkpoints and the stop signal\<close>

lemma check_outcome:
  assumes "check_update es ev (get_state_dict T m) = Inr es'"
  shows "check T es ev m ep =
           (if counter es' \<ge> patience es' then
              (if save_model es' then
                 (case state_dict es' of
                    None \<Rightarrow> (es', m, Inl NoneStateDict)
                  | Some sd \<Rightarrow> (es', load_state_dict T m sd, Inr True))
               else (es', m, Inr True))
            else (es', m, Inr False))"
  using assms by (simp add: check_def)



text \<open>
  Claim C3. With \<^verbatim>\<open>use_loss\<close>, \<^verbatim>\<open>use_acc\<close> and \<^verbatim>\<open>save_model\<close> all enabled, a call to
  \<^verbatim>\<open>check\<close> replaces the kept checkpoint by a copy of the model's state exactly when
  the validation loss is at most the best loss and the validation accuracy is at least
  the best accuracy, and keeps the old checkpoint otherwise; the counter becomes 0 when
  at least one of the two comparisons holds and grows by one when neither does.
\<close>

theorem dual_criterion_checkpointing:
  assumes "use_loss es" and "use_acc es" and "save_model es"
    and "evals ''val_loss'' = Some vl" and "evals ''val_acc'' = Some va"
  shows "state_dict (fst (check T es evals m ep)) =
           (if float_le vl (best_val_loss es) \<and> float_ge va (best_val_acc es)
            then Some (get_state_dict T m) else state_dict es)
         \<and> counter (fst (check T es evals m ep)) =
           (if float_le vl (best_val_loss es) \<or> float_ge va (best_val_acc es)
            then 0 else counter es + 1)"
  using assms by (simp add: fst_check check_update_def getitem_def)

theorem dual_criterion_checkpointing_witness:
  "use_loss (demo_stopper 3 True True True) \<and> use_acc (demo_stopper 3 True True True)
   \<and> save_model (demo_stopper 3 True True True)
   \<and> demo_evals 1 (1/2) ''val_loss'' = Some (Fin 1)
   \<and> demo_evals 1 (1/2) ''val_acc'' = Some (Fin (1/2))
   \<and> state_dict (fst (check demo_torch (demo_stopper 3 True True True)
                        (demo_evals 1 (1/2)) 7 1)) = Some 7
   \<and> counter (fst (check demo_torch (demo_stopper 3 True True True)
                     (demo_evals 1 (1/2)) 7 1)) = 0"
proof -
  have a: "use_loss (demo_stopper 3 True True True)" "use_acc (demo_stopper 3 True True True)"
    "save_model (demo_stopper 3 True True True)"
    by (simp_all add: demo_stopper_def)
  have b: "demo_evals 1 (1/2) ''val_loss'' = Some (Fin 1)"
    "demo_evals 1 (1/2) ''val_acc'' = Some (Fin (1/2))"
    by (simp_all add: demo_evals_def)
  have c: "best_val_loss (demo_stopper 3 True True True) = PInf"
    "best_val_acc (demo_stopper 3 True True True) = Fin 0"
    "get_state_dict demo_torch 7 = 7"
    by (simp_all add: demo_stopper_def demo_torch_def)
  show ?thesis
    using dual_criterion_checkpointing [OF a b, of demo_torch 7 1] a b
    by (simp add: c float_ge_def)
qed



text \<open>
  Claim C4, at the input where the code departs from it. With patience 1, only the
  accuracy criterion and \<^verbatim>\<open>save_model\<close> enabled, a first call with validation accuracy 0
  does not improve on the initial best accuracy 0, so the counter reaches the patience;
  no checkpoint has been saved, line 64 hands \<^verbatim>\<open>None\<close> to \<^verbatim>\<open>load_state_dict\<close>, and the
  call raises instead of returning \<^verbatim>\<open>True\<close>.
\<close>

theorem check_raises_when_patience_reached:
  "check demo_torch (demo_stopper 1 False True True) (demo_evals 1 0) 5 1 =
     ((demo_stopper 1 False True True)\<lparr>counter := 1\<rparr>, 5, Inl NoneStateDict)
   \<and> counter ((demo_stopper 1 False True True)\<lparr>counter := 1\<rparr>)
       \<ge> patience ((demo_stopper 1 False True True)\<lparr>counter := 1\<rparr>)"
  by (simp add: check_def check_update_def getitem_def demo_evals_def demo_stopper_def
        demo_torch_def float_gt_def float_lt_def)

text \<open>
  Claim C10, at the input where the code departs from it. With patience 0, only the
  accuracy criterion and \<^verbatim>\<open>save_model\<close> enabled, the first call with validation accuracy 0
  passes the stop test, but no checkpoint has been saved, and the call raises instead of
  returning \<^verbatim>\<open>True\<close>.
\<close>

theorem check_raises_at_patience_zero:
  "EarlyStopping_init 0 False False True True = Inr (demo_stopper 0 False True True)
   \<and> check demo_torch (demo_stopper 0 False True True) (demo_evals 1 0) 5 1 =
       ((demo_stopper 0 False True True)\<lparr>counter := 1\<rparr>, 5, Inl NoneStateDict)"
  by (simp add: EarlyStopping_init_def check_def check_update_def getitem_def demo_evals_def
        demo_stopper_def demo_torch_def float_gt_def float_lt_def)

section \<open>\<^verbatim>\<open>Trainer\<close>: what a step changes\<close>

lemma same_setup_refl: "same_setup tr tr"
  by (simp add: same_setup_def)

lemma same_setup_trans: "same_setup a b \<Longrightarrow> same_setup b c \<Longrightarrow> same_setup a c"
  by (simp add: same_setup_def)

lemma train_setup: "train T tr g = (tr', g') \<Longrightarrow> same_setup tr tr'"
  by (auto simp: train_def same_setup_def split: prod.splits)

lemma evaluate_setup: "evaluate T tr = Inr (tr', ev) \<Longrightarrow> same_setup tr tr'"
  by (auto simp: evaluate_def same_setup_def Let_def split: sum.splits)

lemma evaluate_ok:
  assumes "masks_nonempty T (data tr)"
  shows "\<exists>ev. evaluate T tr = Inr (tr\<lparr>model := eval_mode T (model tr)\<rparr>, ev)
            \<and> ev ''val_loss'' \<noteq> None \<and> ev ''val_acc'' \<noteq> None \<and> ev ''test_acc'' \<noteq> None"
  using assms by (simp add: evaluate_def masks_nonempty_def Let_def)

lemma evaluate_keys_present:
  assumes "evaluate T tr = Inr (tr', ev)"
  shows "ev ''val_loss'' \<noteq> None \<and> ev ''val_acc'' \<noteq> None \<and> ev ''test_acc'' \<noteq> None"
  using assms by (auto simp: evaluate_def Let_def split: sum.splits if_splits)

lemma Trainer_reset_setup: "Trainer_reset T tr g = Inr (tr', g') \<Longrightarrow> same_setup tr tr'"
  by (auto simp: Trainer_reset_def same_setup_def EarlyStopping_reset_def Let_def
           split: prod.splits if_splits option.splits)

lemma Trainer_reset_returns:
  assumes "early_stopping tr \<longrightarrow> stop_checker tr \<noteq> None"
  shows "\<exists>tr' g'. Trainer_reset T tr g = Inr (tr', g')"
  using assms
  by (cases "reset_parameters T (to_device T (model tr)) g")
     (auto simp: Trainer_reset_def Let_def)

text \<open>
  Claim C7. \<^verbatim>\<open>Trainer.reset\<close> (on a trainer whose early-stopping object exists when early
  stopping is enabled) returns normally. Afterwards the optimizer is a newly constructed
  \<^verbatim>\<open>Adam\<close> over the model with the trainer's \<^verbatim>\<open>lr\<close> and \<^verbatim>\<open>weight_decay\<close>, whatever the
  old optimizer was, and the model is the result of \<^verbatim>\<open>reset_parameters\<close>. When early
  stopping is enabled the early-stopping object has counter 0, best validation loss
  positive infinity, best validation accuracy 0 and no checkpoint, with its five
  configuration attributes as before: it is the object its constructor builds from that
  configuration. When early stopping is disabled \<^verbatim>\<open>stop_checker\<close> is untouched. The
  attributes \<^verbatim>\<open>lr\<close>, \<^verbatim>\<open>weight_decay\<close>, \<^verbatim>\<open>epochs\<close>, \<^verbatim>\<open>niter\<close>, \<^verbatim>\<open>data\<close>, \<^verbatim>\<open>early_stopping\<close>
  and \<^verbatim>\<open>verbose\<close> are unchanged. Every restart begins with it: the epoch loop of a restart
  runs from the state that \<^verbatim>\<open>reset\<close> leaves.
\<close>

theorem Trainer_reset_frame:
  assumes "early_stopping tr \<longrightarrow> stop_checker tr \<noteq> None"
  shows "\<exists>tr' g'. Trainer_reset T tr g = Inr (tr', g')
           \<and> optimizer tr' = Adam T (model tr) (lr tr) (weight_decay tr)
           \<and> (model tr', g') = reset_parameters T (to_device T (model tr)) g
           \<and> (early_stopping tr \<longrightarrow>
                (\<exists>sc sc'. stop_checker tr = Some sc \<and> stop_checker tr' = Some sc'
                   \<and> counter sc' = 0 \<and> best_val_loss sc' = PInf
                   \<and> best_val_acc sc' = Fin 0 \<and> state_dict sc' = None
                   \<and> patience sc' = patience sc \<and> use_loss sc' = use_loss sc
                   \<and> use_acc sc' = use_acc sc \<and> save_model sc' = save_model sc
                   \<and> verbose sc' = verbose sc
                   \<and> (use_loss sc \<or> use_acc sc \<longrightarrow>
                        EarlyStopping_init (patience sc) (verbose sc) (use_loss sc)
                          (use_acc sc) (save_model sc) = Inr sc')))
           \<and> (\<not> early_stopping tr \<longrightarrow> stop_checker tr' = stop_checker tr)
           \<and> lr tr' = lr tr \<and> weight_decay tr' = weight_decay tr \<and> epochs tr' = epochs tr
           \<and> niter tr' = niter tr \<and> data tr' = data tr
           \<and> early_stopping tr' = early_stopping tr
           \<and> trainer_verbose tr' = trainer_verbose tr
           \<and> fst (restart T tr g) = fst (epoch_loop T tr' g' [1..epochs tr])"
proof (cases "reset_parameters T (to_device T (model tr)) g")
  case (Pair m g1)
  show ?thesis
  proof (cases "early_stopping tr")
    case True
    then obtain sc where sc: "stop_checker tr = Some sc" using assms by auto
    let ?sc' = "EarlyStopping_reset sc"
    let ?tr' = "tr\<lparr>optimizer := Adam T (model tr) (lr tr) (weight_decay tr), model := m,
                   stop_checker := Some ?sc'\<rparr>"
    have r: "Trainer_reset T tr g = Inr (?tr', g1)"
      using Pair True sc by (simp add: Trainer_reset_def Let_def)
    have f: "fst (restart T tr g) = fst (epoch_loop T ?tr' g1 [1..epochs tr])"
      by (simp add: restart_def r split: prod.splits sum.splits)
    have fresh: "counter ?sc' = 0 \<and> best_val_loss ?sc' = PInf
                   \<and> best_val_acc ?sc' = Fin 0 \<and> state_dict ?sc' = None
                   \<and> patience ?sc' = patience sc \<and> use_loss ?sc' = use_loss sc
                   \<and> use_acc ?sc' = use_acc sc \<and> save_model ?sc' = save_model sc
                   \<and> verbose ?sc' = verbose sc"
      by (simp add: EarlyStopping_reset_def)
    have built: "EarlyStopping_init (patience sc) (verbose sc) (use_loss sc)
                   (use_acc sc) (save_model sc) = Inr ?sc'"
      if "use_loss sc \<or> use_acc sc"
      using that by (cases sc) (simp add: EarlyStopping_init_def EarlyStopping_reset_def)
    have es: "\<exists>sc0 sc'. stop_checker tr = Some sc0 \<and> stop_checker ?tr' = Some sc'
                   \<and> counter sc' = 0 \<and> best_val_loss sc' = PInf
                   \<and> best_val_acc sc' = Fin 0 \<and> state_dict sc' = None
                   \<and> patience sc' = patience sc0 \<and> use_loss sc' = use_loss sc0
                   \<and> use_acc sc' = use_acc sc0 \<and> save_model sc' = save_model sc0
                   \<and> verbose sc' = verbose sc0
                   \<and> (use_loss sc0 \<or> use_acc sc0 \<longrightarrow>
                        EarlyStopping_init (patience sc0) (verbose sc0) (use_loss sc0)
                          (use_acc sc0) (save_model sc0) = Inr sc')"
    proof -
      have "stop_checker ?tr' = Some ?sc'" by simp
      then show ?thesis using sc fresh built by blast
    qed
    have rest: "optimizer ?tr' = Adam T (model tr) (lr tr) (weight_decay tr)
           \<and> (model ?tr', g1) = reset_parameters T (to_device T (model tr)) g
           \<and> lr ?tr' = lr tr \<and> weight_decay ?tr' = weight_decay tr \<and> epochs ?tr' = epochs tr
           \<and> niter ?tr' = niter tr \<and> data ?tr' = data tr
           \<and> early_stopping ?tr' = early_stopping tr
           \<and> trainer_verbose ?tr' = trainer_verbose tr"
      using Pair by simp
    show ?thesis using r f es rest True by blast
  next
    case False
    let ?tr' = "tr\<lparr>optimizer := Adam T (model tr) (lr tr) (weight_decay tr), model := m\<rparr>"
    have r: "Trainer_reset T tr g = Inr (?tr', g1)"
      using Pair False by (simp add: Trainer_reset_def Let_def)
    have f: "fst (restart T tr g) = fst (epoch_loop T ?tr' g1 [1..epochs tr])"
      by (simp add: restart_def r split: prod.splits sum.splits)
    show ?thesis using r f Pair False by simp
  qed
qed

theorem Trainer_reset_frame_witness:
  "stop_checker demo_trainer_used \<noteq> None
   \<and> model demo_trainer_used = 9 \<and> optimizer demo_trainer_used = 5
   \<and> map_option counter (stop_checker demo_trainer_used) = Some 2
   \<and> map_option state_dict (stop_checker demo_trainer_used) = Some (Some 7)
   \<and> Trainer_reset demo_torch demo_trainer_used 5 =
       Inr (demo_trainer_used\<lparr>model := 5, optimizer := 0,
              stop_checker := Some (demo_stopper 3 True True True)\<rparr>, 6)
   \<and> epochs demo_trainer_used = 3"
proof -
  have a: "stop_checker demo_trainer_used \<noteq> None"
    by (simp add: demo_trainer_used_def)
  have u: "model demo_trainer_used = 9 \<and> optimizer demo_trainer_used = 5
   \<and> map_option counter (stop_checker demo_trainer_used) = Some 2
   \<and> map_option state_dict (stop_checker demo_trainer_used) = Some (Some 7)"
    by (simp add: demo_trainer_used_def)
  have r: "Trainer_reset demo_torch demo_trainer_used 5 =
       Inr (demo_trainer_used\<lparr>model := 5, optimizer := 0,
              stop_checker := Some (demo_stopper 3 True True True)\<rparr>, 6)"
    by (simp add: Trainer_reset_def demo_trainer_used_def demo_trainer_def demo_torch_def
          demo_stopper_def EarlyStopping_reset_def Let_def)
  have e: "epochs demo_trainer_used = 3"
    by (simp add: demo_trainer_used_def demo_trainer_def)
  show ?thesis
    using Trainer_reset_frame [of demo_trainer_used demo_torch 5] a
    by (simp add: r e u)
qed

section \<open>\<^verbatim>\<open>Trainer.run\<close>: the two loops\<close>

lemma checker_without_save_setup:
  "same_setup tr tr' \<Longrightarrow> checker_without_save tr' = checker_without_save tr"
  by (simp add: same_setup_def checker_without_save_def)

lemma check_no_raise:
  assumes "\<not> save_model es" and "ev ''val_loss'' \<noteq> None" and "ev ''val_acc'' \<noteq> None"
  shows "\<exists>b. snd (snd (check T es ev m ep)) = Inr b"
proof -
  have "readable es ev" using assms by (simp add: readable_def)
  then obtain es' where u: "check_update es ev (get_state_dict T m) = Inr es'"
    using check_update_KeyError[of es ev "get_state_dict T m"]
    by (cases "check_update es ev (get_state_dict T m)") auto
  have "\<not> save_model es'" using check_update_config[OF u] assms(1) by simp
  then show ?thesis unfolding check_outcome[OF u] by auto
qed

lemma epoch_loop_step:
  obtains (raise) e where "epoch_loop T tr g (ep # rest) = ([False], Inl e)"
  | (stop) tr' g' where "epoch_loop T tr g (ep # rest) = ([True], Inr (tr', g'))"
      "same_setup tr tr'" "early_stopping tr"
  | (continue) tr' g' where
      "epoch_loop T tr g (ep # rest) =
         (False # fst (epoch_loop T tr' g' rest), snd (epoch_loop T tr' g' rest))"
      "same_setup tr tr'"
proof -
  obtain tr1 g1 where t: "train T tr g = (tr1, g1)" by (cases "train T tr g") auto
  have s1: "same_setup tr tr1" using t by (rule train_setup)
  show thesis
  proof (cases "evaluate T tr1")
    case (Inl e)
    then have "epoch_loop T tr g (ep # rest) = ([False], Inl e)" using t by simp
    then show ?thesis by (rule raise)
  next
    case (Inr p)
    then obtain tr2 ev where e: "evaluate T tr1 = Inr (tr2, ev)" by (cases p) auto
    have s2: "same_setup tr tr2" using s1 evaluate_setup[OF e] by (rule same_setup_trans)
    show ?thesis
    proof (cases "early_stopping tr2")
      case False
      have "epoch_loop T tr g (ep # rest) =
              (False # fst (epoch_loop T tr2 g1 rest), snd (epoch_loop T tr2 g1 rest))"
        using t e False by (simp split: prod.splits)
      then show ?thesis using s2 by (rule continue)
    next
      case True
      then have es: "early_stopping tr" using s2 by (simp add: same_setup_def)
      show ?thesis
      proof (cases "stop_checker tr2")
        case None
        then have "epoch_loop T tr g (ep # rest) = ([False], Inl AttributeError)"
          using t e True by simp
        then show ?thesis by (rule raise)
      next
        case (Some sc)
        obtain sc' m' out where c: "check T sc ev (model tr2) ep = (sc', m', out)"
          by (cases "check T sc ev (model tr2) ep") auto
        have "sc' = fst (check T sc ev (model tr2) ep)" using c by simp
        then have sm: "save_model sc' = save_model sc" using check_config[of T sc ev "model tr2" ep] by simp
        let ?tr3 = "tr2\<lparr>stop_checker := Some sc', model := m'\<rparr>"
        have s3: "same_setup tr ?tr3"
          using s2 sm Some by (simp add: same_setup_def)
        show ?thesis
        proof (cases out)
          case (Inl e')
          then have "epoch_loop T tr g (ep # rest) = ([False], Inl e')"
            using t e True Some c by simp
          then show ?thesis by (rule raise)
        next
          case (Inr b)
          show ?thesis
          proof (cases b)
            case True
            have "epoch_loop T tr g (ep # rest) = ([True], Inr (?tr3, g1))"
              using t e \<open>early_stopping tr2\<close> Some c Inr True by simp
            then show ?thesis using s3 es by (rule stop)
          next
            case False
            have "epoch_loop T tr g (ep # rest) =
              (False # fst (epoch_loop T ?tr3 g1 rest), snd (epoch_loop T ?tr3 g1 rest))"
              using t e \<open>early_stopping tr2\<close> Some c Inr False by (simp split: prod.splits)
            then show ?thesis using s3 by (rule continue)
          qed
        qed
      qed
    qed
  qed
qed

lemma epoch_loop_step_safe:
  assumes "masks_nonempty T (data tr)" and "checker_without_save tr"
  obtains (stop) tr' g' where "epoch_loop T tr g (ep # rest) = ([True], Inr (tr', g'))"
      "same_setup tr tr'"
  | (continue) tr' g' where
      "epoch_loop T tr g (ep # rest) =
         (False # fst (epoch_loop T tr' g' rest), snd (epoch_loop T tr' g' rest))"
      "same_setup tr tr'"
proof -
  obtain tr1 g1 where t: "train T tr g = (tr1, g1)" by (cases "train T tr g") auto
  have s1: "same_setup tr tr1" using t by (rule train_setup)
  then have "masks_nonempty T (data tr1)" using assms(1) by (simp add: same_setup_def)
  from evaluate_ok[OF this] obtain ev where
    e: "evaluate T tr1 = Inr (tr1\<lparr>model := eval_mode T (model tr1)\<rparr>, ev)"
    and k: "ev ''val_loss'' \<noteq> None" "ev ''val_acc'' \<noteq> None" by blast
  let ?tr2 = "tr1\<lparr>model := eval_mode T (model tr1)\<rparr>"
  have s2: "same_setup tr ?tr2" using s1 evaluate_setup[OF e] by (rule same_setup_trans)
  have cw: "checker_without_save ?tr2" using checker_without_save_setup[OF s2] assms(2) by simp
  show thesis
  proof (cases "early_stopping ?tr2")
    case False
    have "epoch_loop T tr g (ep # rest) =
            (False # fst (epoch_loop T ?tr2 g1 rest), snd (epoch_loop T ?tr2 g1 rest))"
      using t e False by (simp split: prod.splits)
    then show ?thesis using s2 by (rule continue)
  next
    case True
    then obtain sc where sc: "stop_checker ?tr2 = Some sc" "\<not> save_model sc"
      using cw by (auto simp: checker_without_save_def)
    obtain sc' m' out where c: "check T sc ev (model ?tr2) ep = (sc', m', out)"
      by (cases "check T sc ev (model ?tr2) ep") auto
    obtain b where b: "out = Inr b"
      using check_no_raise[OF sc(2) k, of T "model ?tr2" ep] c by auto
    have "sc' = fst (check T sc ev (model ?tr2) ep)" using c by simp
    then have sm: "save_model sc' = save_model sc"
      using check_config[of T sc ev "model ?tr2" ep] by simp
    let ?tr3 = "?tr2\<lparr>stop_checker := Some sc', model := m'\<rparr>"
    have s3: "same_setup tr ?tr3" using s2 sm sc(1) by (simp add: same_setup_def)
    show ?thesis
    proof (cases b)
      case True
      have "epoch_loop T tr g (ep # rest) = ([True], Inr (?tr3, g1))"
        using t e \<open>early_stopping ?tr2\<close> sc(1) c b True by simp
      then show ?thesis using s3 by (rule stop)
    next
      case False
      have "epoch_loop T tr g (ep # rest) =
        (False # fst (epoch_loop T ?tr3 g1 rest), snd (epoch_loop T ?tr3 g1 rest))"
        using t e \<open>early_stopping ?tr2\<close> sc(1) c b False by (simp split: prod.splits)
      then show ?thesis using s3 by (rule continue)
    qed
  qed
qed

declare epoch_loop.simps(2) [simp del]


lemma epoch_loop_result:
  "epoch_loop T tr g es = (elog, Inr (tr', g')) \<Longrightarrow>
     same_setup tr tr' \<and> (length elog < length es \<longrightarrow> elog \<noteq> [] \<and> last elog)"
proof (induction es arbitrary: tr g elog)
  case Nil
  then show ?case by (simp add: same_setup_refl)
next
  case (Cons ep rest)
  show ?case
  proof (cases rule: epoch_loop_step[of T tr g ep rest])
    case (raise e)
    then show ?thesis using Cons.prems by simp
  next
    case (stop tr1 g1)
    then show ?thesis using Cons.prems by auto
  next
    case (continue tr1 g1)
    obtain elog1 where
      l: "elog = False # elog1" and r: "epoch_loop T tr1 g1 rest = (elog1, Inr (tr', g'))"
      using Cons.prems continue(1) by (cases "epoch_loop T tr1 g1 rest") auto
    from Cons.IH[OF r] have ih: "same_setup tr1 tr'"
      "length elog1 < length rest \<longrightarrow> elog1 \<noteq> [] \<and> last elog1" by simp_all
    have "same_setup tr tr'" using continue(2) ih(1) by (rule same_setup_trans)
    then show ?thesis using ih(2) l by auto
  qed
qed

lemma epoch_loop_safe:
  "masks_nonempty T (data tr) \<Longrightarrow> checker_without_save tr \<Longrightarrow>
     \<exists>r. snd (epoch_loop T tr g es) = Inr r"
proof (induction es arbitrary: tr g)
  case Nil
  then show ?case by simp
next
  case (Cons ep rest)
  show ?case
    using Cons.prems
  proof (cases rule: epoch_loop_step_safe[of T tr g ep rest])
    case (stop tr' g')
    then show ?thesis by simp
  next
    case (continue tr' g')
    have "masks_nonempty T (data tr')" using continue(2) Cons.prems(1)
      by (simp add: same_setup_def)
    moreover have "checker_without_save tr'"
      using checker_without_save_setup[OF continue(2)] Cons.prems(2) by simp
    ultimately show ?thesis using Cons.IH[of tr' g'] by (simp add: continue(1))
  qed
qed

lemma length_epochs: "length [1..n] = nat n"
  by simp


lemma restart_result:
  assumes "restart T tr g = (elog, Inr (tr', g', va, ta))"
  shows "same_setup tr tr' \<and> (length elog < nat (epochs tr) \<longrightarrow> elog \<noteq> [] \<and> last elog)
         \<and> (\<exists>a b. va = Fin a \<and> ta = Fin b)"
proof (cases "Trainer_reset T tr g")
  case (Inl e)
  then show ?thesis using assms by (simp add: restart_def)
next
  case (Inr p)
  then obtain tr1 g1 where r: "Trainer_reset T tr g = Inr (tr1, g1)" by (cases p) auto
  have s: "same_setup tr tr1" using r by (rule Trainer_reset_setup)
  obtain elog1 out where e: "epoch_loop T tr1 g1 [1..epochs tr1] = (elog1, out)"
    by (cases "epoch_loop T tr1 g1 [1..epochs tr1]") auto
  show ?thesis
  proof (cases out)
    case (Inl e')
    then show ?thesis using assms r e by (simp add: restart_def)
  next
    case (Inr q)
    then obtain tr2 g2 where o: "out = Inr (tr2, g2)" by (cases q) auto
    from epoch_loop_result[OF e[unfolded o]]
    have s2: "same_setup tr1 tr2"
      and st: "length elog1 < nat (epochs tr1) \<longrightarrow> elog1 \<noteq> [] \<and> last elog1" by simp_all
    show ?thesis
    proof (cases "evaluate T tr2")
      case (Inl e')
      then show ?thesis using assms r e o by (simp add: restart_def)
    next
      case (Inr q')
      then obtain tr3 ev where v: "evaluate T tr2 = Inr (tr3, ev)" by (cases q') auto
      have s3: "same_setup tr2 tr3" using v by (rule evaluate_setup)
      have fin: "\<exists>a b. ev ''val_acc'' = Some (Fin a) \<and> ev ''test_acc'' = Some (Fin b)"
        using v by (auto simp: evaluate_def Let_def split: sum.splits if_splits)
      have res: "elog = elog1 \<and> tr' = tr3 \<and> Some va = ev ''val_acc'' \<and> Some ta = ev ''test_acc''"
        using assms r e o v by (auto simp: restart_def getitem_def split: option.splits)
      have "same_setup tr tr'"
        using s s2 s3 res by (auto intro: same_setup_trans)
      then show ?thesis using st s res fin by (auto simp: same_setup_def)
    qed
  qed
qed

lemma restart_safe:
  assumes "masks_nonempty T (data tr)" and "checker_without_save tr"
  shows "\<exists>r. snd (restart T tr g) = Inr r"
proof -
  have "early_stopping tr \<longrightarrow> stop_checker tr \<noteq> None"
    using assms(2) by (auto simp: checker_without_save_def)
  from Trainer_reset_returns[OF this, of T g]
  obtain tr1 g1 where r: "Trainer_reset T tr g = Inr (tr1, g1)" by blast
  have s: "same_setup tr tr1" using r by (rule Trainer_reset_setup)
  have m1: "masks_nonempty T (data tr1)" using s assms(1) by (simp add: same_setup_def)
  have c1: "checker_without_save tr1" using checker_without_save_setup[OF s] assms(2) by simp
  obtain elog1 tr2 g2 where e: "epoch_loop T tr1 g1 [1..epochs tr1] = (elog1, Inr (tr2, g2))"
    using epoch_loop_safe[OF m1 c1, of g1 "[1..epochs tr1]"]
    by (cases "epoch_loop T tr1 g1 [1..epochs tr1]") auto
  have s2: "same_setup tr1 tr2" using epoch_loop_result[OF e] by simp
  then have "masks_nonempty T (data tr2)" using m1 by (simp add: same_setup_def)
  from evaluate_ok[OF this] obtain ev where
    v: "evaluate T tr2 = Inr (tr2\<lparr>model := eval_mode T (model tr2)\<rparr>, ev)"
    and k: "ev ''val_acc'' \<noteq> None" "ev ''test_acc'' \<noteq> None" by blast
  show ?thesis using r e v k by (auto simp: restart_def getitem_def)
qed


lemma restart_loop_result:
  "restart_loop T tr g rs vals tests = (elogs, Inr (tr', g', vals', tests')) \<Longrightarrow>
     length elogs = length rs
     \<and> (\<forall>elog\<in>set elogs. length elog < nat (epochs tr) \<longrightarrow> elog \<noteq> [] \<and> last elog)
     \<and> same_setup tr tr'
     \<and> (\<exists>vs ts. vals' = vals @ map Fin vs \<and> tests' = tests @ map Fin ts
           \<and> length vs = length rs \<and> length ts = length rs)"
proof (induction rs arbitrary: tr g vals tests elogs)
  case Nil
  then show ?case by (simp add: same_setup_refl)
next
  case (Cons i rest)
  obtain elog r where r: "restart T tr g = (elog, r)" by (cases "restart T tr g") auto
  show ?case
  proof (cases r)
    case (Inl e)
    then show ?thesis using Cons.prems r by simp
  next
    case (Inr p)
    then obtain tr1 g1 va ta where p: "r = Inr (tr1, g1, va, ta)" by (cases p) auto
    obtain elogs1 where e: "elogs = elog # elogs1"
      and rl: "restart_loop T tr1 g1 rest (vals @ [va]) (tests @ [ta])
                 = (elogs1, Inr (tr', g', vals', tests'))"
      using Cons.prems r p
      by (cases "restart_loop T tr1 g1 rest (vals @ [va]) (tests @ [ta])") auto
    from restart_result[OF r[unfolded p]] obtain a b where
      s: "same_setup tr tr1"
      and st: "length elog < nat (epochs tr) \<longrightarrow> elog \<noteq> [] \<and> last elog"
      and ab: "va = Fin a" "ta = Fin b" by blast
    from Cons.IH[OF rl] obtain vs ts where
      ih: "length elogs1 = length rest"
        "\<forall>elog\<in>set elogs1. length elog < nat (epochs tr1) \<longrightarrow> elog \<noteq> [] \<and> last elog"
        "same_setup tr1 tr'"
        "vals' = (vals @ [va]) @ map Fin vs" "tests' = (tests @ [ta]) @ map Fin ts"
        "length vs = length rest" "length ts = length rest" by blast
    have eq: "epochs tr1 = epochs tr" using s by (simp add: same_setup_def)
    have 1: "length elogs = length (i # rest)" using e ih(1) by simp
    have 2: "\<forall>elog\<in>set elogs. length elog < nat (epochs tr) \<longrightarrow> elog \<noteq> [] \<and> last elog"
      using e st ih(2) eq by simp
    have 3: "same_setup tr tr'" using s ih(3) by (rule same_setup_trans)
    have 4: "vals' = vals @ map Fin (a # vs) \<and> tests' = tests @ map Fin (b # ts)
           \<and> length (a # vs) = length (i # rest) \<and> length (b # ts) = length (i # rest)"
      using ih(4-7) ab by simp
    show ?thesis using 1 2 3 4 by blast
  qed
qed

lemma restart_loop_safe:
  "masks_nonempty T (data tr) \<Longrightarrow> checker_without_save tr \<Longrightarrow>
     \<exists>r. snd (restart_loop T tr g rs vals tests) = Inr r"
proof (induction rs arbitrary: tr g vals tests)
  case Nil
  then show ?case by simp
next
  case (Cons i rest)
  obtain elog tr1 g1 va ta where r: "restart T tr g = (elog, Inr (tr1, g1, va, ta))"
    using restart_safe[OF Cons.prems, of g] by (cases "restart T tr g") auto
  have s: "same_setup tr tr1" using restart_result[OF r] by simp
  have m: "masks_nonempty T (data tr1)" using s Cons.prems(1) by (simp add: same_setup_def)
  have c: "checker_without_save tr1"
    using checker_without_save_setup[OF s] Cons.prems(2) by simp
  obtain elogs1 out1 where
    rl: "restart_loop T tr1 g1 rest (vals @ [va]) (tests @ [ta]) = (elogs1, out1)"
    by (cases "restart_loop T tr1 g1 rest (vals @ [va]) (tests @ [ta])") auto
  obtain q where "out1 = Inr q"
    using Cons.IH[OF m c, of g1 "vals @ [va]" "tests @ [ta]"] rl by auto
  then show ?case using r rl by (cases q) auto
qed

lemma length_restarts: "length [0..n - 1] = nat n"
  by simp

lemma evaluate_accuracy:
  assumes "evaluate T tr = Inr (tr', ev)"
  shows "tr' = tr\<lparr>model := eval_mode T (model tr)\<rparr>"
    and "getitem ev ''val_acc'' = accuracy T (model tr') (data tr) ''val''"
    and "getitem ev ''test_acc'' = accuracy T (model tr') (data tr) ''test''"
  using assms
  by (auto simp: evaluate_def accuracy_def getitem_def Let_def split: sum.splits if_splits)

lemma restart_accuracies:
  assumes "restart T tr g = (elog, Inr (tr', g', va, ta))"
  shows "\<exists>tr1 g1 tr2. Trainer_reset T tr g = Inr (tr1, g1)
           \<and> epoch_loop T tr1 g1 [1..epochs tr] = (elog, Inr (tr2, g'))
           \<and> tr' = tr2\<lparr>model := eval_mode T (model tr2)\<rparr>
           \<and> accuracy T (eval_mode T (model tr2)) (data tr) ''val'' = Inr va
           \<and> accuracy T (eval_mode T (model tr2)) (data tr) ''test'' = Inr ta"
proof (cases "Trainer_reset T tr g")
  case (Inl e)
  then show ?thesis using assms by (simp add: restart_def)
next
  case (Inr p)
  then obtain tr1 g1 where r: "Trainer_reset T tr g = Inr (tr1, g1)" by (cases p) auto
  have s: "same_setup tr tr1" using r by (rule Trainer_reset_setup)
  then have ep: "epochs tr1 = epochs tr" by (simp add: same_setup_def)
  obtain elog1 out where e: "epoch_loop T tr1 g1 [1..epochs tr] = (elog1, out)"
    by (cases "epoch_loop T tr1 g1 [1..epochs tr]") auto
  show ?thesis
  proof (cases out)
    case (Inl e')
    then show ?thesis using assms r e ep by (simp add: restart_def)
  next
    case (Inr q)
    then obtain tr2 g2 where o: "out = Inr (tr2, g2)" by (cases q) auto
    have s2: "same_setup tr1 tr2" using epoch_loop_result[OF e[unfolded o]] by simp
    have d: "data tr2 = data tr" using s s2 by (simp add: same_setup_def)
    show ?thesis
    proof (cases "evaluate T tr2")
      case (Inl e')
      then show ?thesis using assms r e o ep by (simp add: restart_def)
    next
      case (Inr q')
      then obtain tr3 ev where v: "evaluate T tr2 = Inr (tr3, ev)" by (cases q') auto
      note acc = evaluate_accuracy[OF v]
      have res: "elog = elog1 \<and> g' = g2 \<and> tr' = tr3
                 \<and> getitem ev ''val_acc'' = Inr va \<and> getitem ev ''test_acc'' = Inr ta"
        using assms r e o v ep by (auto simp: restart_def split: sum.splits)
      have m3: "model tr3 = eval_mode T (model tr2)" using acc(1) by simp
      have "accuracy T (eval_mode T (model tr2)) (data tr) ''val'' = Inr va"
        using acc(2) res d m3 by simp
      moreover have "accuracy T (eval_mode T (model tr2)) (data tr) ''test'' = Inr ta"
        using acc(3) res d m3 by simp
      ultimately show ?thesis using r e o res acc(1) by simp
    qed
  qed
qed

lemma restarts_setup:
  "restarts T tr g n = Inr (tr', g') \<Longrightarrow> same_setup tr tr'"
proof (induction n arbitrary: tr g)
  case 0
  then show ?case by (simp add: same_setup_refl)
next
  case (Suc n)
  obtain elog out where r: "restart T tr g = (elog, out)" by (cases "restart T tr g") auto
  show ?case
  proof (cases out)
    case (Inl e)
    then show ?thesis using Suc.prems r by simp
  next
    case (Inr p)
    then obtain tr1 g1 va ta where p: "out = Inr (tr1, g1, va, ta)" by (cases p) auto
    have s: "same_setup tr tr1" using restart_result[OF r[unfolded p]] by simp
    have "restarts T tr1 g1 n = Inr (tr', g')" using Suc.prems r p by simp
    from Suc.IH[OF this] s show ?thesis by (auto intro: same_setup_trans)
  qed
qed

lemma restart_loop_lists:
  "restart_loop T tr g rs vals tests = (elogs, Inr (tr', g', vals', tests')) \<Longrightarrow>
     \<exists>vs ts. vals' = vals @ vs \<and> tests' = tests @ ts
        \<and> length vs = length rs \<and> length ts = length rs
        \<and> (\<forall>i<length rs. \<exists>tri gi elog tri' gi'.
               restarts T tr g i = Inr (tri, gi)
               \<and> restart T tri gi = (elog, Inr (tri', gi', vs ! i, ts ! i)))"
proof (induction rs arbitrary: tr g vals tests elogs)
  case Nil
  then show ?case by simp
next
  case (Cons k rest)
  obtain elog r where r: "restart T tr g = (elog, r)" by (cases "restart T tr g") auto
  show ?case
  proof (cases r)
    case (Inl e)
    then show ?thesis using Cons.prems r by simp
  next
    case (Inr p)
    then obtain tr1 g1 va ta where p: "r = Inr (tr1, g1, va, ta)" by (cases p) auto
    obtain elogs1 where
      rl: "restart_loop T tr1 g1 rest (vals @ [va]) (tests @ [ta])
             = (elogs1, Inr (tr', g', vals', tests'))"
      using Cons.prems r p
      by (cases "restart_loop T tr1 g1 rest (vals @ [va]) (tests @ [ta])") auto
    from Cons.IH[OF rl] obtain vs ts where
      ih: "vals' = (vals @ [va]) @ vs" "tests' = (tests @ [ta]) @ ts"
        "length vs = length rest" "length ts = length rest"
        "\<forall>i<length rest. \<exists>tri gi elog tri' gi'.
               restarts T tr1 g1 i = Inr (tri, gi)
               \<and> restart T tri gi = (elog, Inr (tri', gi', vs ! i, ts ! i))"
      by blast
    have step: "\<exists>tri gi elog tri' gi'.
               restarts T tr g i = Inr (tri, gi)
               \<and> restart T tri gi = (elog, Inr (tri', gi', (va # vs) ! i, (ta # ts) ! i))"
      if "i < length (k # rest)" for i
    proof (cases i)
      case 0
      then show ?thesis using r p by simp
    next
      case (Suc j)
      then have "j < length rest" using that by simp
      then show ?thesis using ih(5) Suc r p by simp
    qed
    have "vals' = vals @ (va # vs) \<and> tests' = tests @ (ta # ts)
        \<and> length (va # vs) = length (k # rest) \<and> length (ta # ts) = length (k # rest)"
      using ih(1-4) by simp
    then show ?thesis using step by blast
  qed
qed

lemma run_lists_run:
  "run_lists T tr g = Inl e \<Longrightarrow> snd (run N T tr g) = Inl e"
  "run_lists T tr g = Inr (vals, tests) \<Longrightarrow>
     run_entry N T tr g ''val_acc'' = Inr (mean N vals)
     \<and> run_entry N T tr g ''test_acc'' = Inr (mean N tests)
     \<and> run_entry N T tr g ''test_acc_std'' = Inr (std N tests)"
  by (auto simp: run_lists_def run_entry_def run_def getitem_def split: sum.splits prod.splits)

lemma demo_upto: "[0..(1::int)] = [0, 1]" "[1..(1::int)] = [1]" "[1..(3::int)] = [1, 2, 3]"
  "[0..(0::int)] = [0]"
  by (simp_all add: upto.simps)

lemma demo_run_lists:
  "run_lists demo_torch (demo_trainer 1 2) 0 = Inr ([Fin 0, Fin (1/2)], [Fin 0, Fin 1])"
  by (simp add: run_lists_def demo_trainer_def demo_torch_def restart_def Trainer_reset_def
        train_def evaluate_def getitem_def epoch_loop.simps demo_upto Let_def)

lemma demo_mean:
  "mean demo_numpy [Fin 0, Fin (1/2)] = Fin (1/4)" "mean demo_numpy [Fin 0, Fin 1] = Fin (1/2)"
  by (simp_all add: demo_numpy_def mean_real_def)

lemma demo_std: "std demo_numpy [Fin 0, Fin 1] = Fin (1/2)"
proof -
  have v: "variance_real [0, 1] = 1/4"
    by (simp add: variance_real_def mean_real_def power2_eq_square)
  have "sqrt (variance_real [0, 1]) = 1/2"
    unfolding v by (rule real_sqrt_unique) (simp_all add: power2_eq_square)
  then show ?thesis by (simp add: demo_numpy_def)
qed

lemma demo_variance: "variance [Fin 0, Fin 1] = Fin (1/4)"
  by (simp add: variance_def variance_real_def mean_real_def power2_eq_square)

lemma demo_run_empty_test:
  "run N demo_torch_empty_test (demo_trainer ep 2) 0 =
     (if 1 \<le> ep then ([[False]], Inl ZeroDivisionError) else ([[]], Inl ZeroDivisionError))"
proof -
  have e: "evaluate demo_torch_empty_test tr = Inl ZeroDivisionError" for tr
    by (simp add: evaluate_def demo_torch_empty_test_def demo_torch_def Let_def)
  have r: "Trainer_reset demo_torch_empty_test (demo_trainer ep 2) 0 =
             Inr ((demo_trainer ep 2)\<lparr>optimizer := 0, model := 0\<rparr>, 1)"
    by (simp add: Trainer_reset_def demo_torch_empty_test_def demo_torch_def demo_trainer_def
          Let_def)
  have l: "epoch_loop demo_torch_empty_test tr g [1..ep] =
             (if 1 \<le> ep then ([False], Inl ZeroDivisionError) else ([], Inr (tr, g)))" for tr g
  proof (cases "1 \<le> ep")
    case True
    then have "[1..ep] = 1 # [2..ep]" by (simp add: upto.simps)
    then show ?thesis using True
      by (simp add: epoch_loop.simps e split: prod.splits)
  next
    case False
    then show ?thesis by simp
  qed
  have ep: "epochs ((demo_trainer ep 2)\<lparr>optimizer := 0, model := 0\<rparr>) = ep"
    by (simp add: demo_trainer_def)
  have "restart demo_torch_empty_test (demo_trainer ep 2) 0 =
          (if 1 \<le> ep then ([False], Inl ZeroDivisionError) else ([], Inl ZeroDivisionError))"
    by (simp add: restart_def r ep l e)
  moreover have "niter (demo_trainer ep 2) = 2" by (simp add: demo_trainer_def)
  ultimately show ?thesis by (simp add: run_def demo_upto)
qed




text \<open>
  Claim C1, as amended. When no exception is raised in the restarts of \<^verbatim>\<open>Trainer.run\<close>
  (none is when no mask is empty and the early-stopping object does not save
  checkpoints), \<^verbatim>\<open>niter\<close> restarts were performed and each of the two lists has \<^verbatim>\<open>niter\<close>
  entries. Entry \<open>i\<close> of the first list is the validation accuracy, and entry \<open>i\<close> of the
  second the test accuracy, of the model that restart \<open>i\<close> ends with: the model that the
  epoch loop, run from the state \<^verbatim>\<open>reset\<close> leaves, hands over, put in evaluation mode. The
  dictionary returned has under \<^verbatim>\<open>val_acc\<close> numpy's mean of the first list, under
  \<^verbatim>\<open>test_acc\<close> numpy's mean of the second, and under \<^verbatim>\<open>test_acc_std\<close> numpy's \<^verbatim>\<open>std\<close>, the
  standard deviation, of the second.
\<close>

theorem run_statistics:
  "(run_lists T tr g = Inr (vals, tests) \<longrightarrow>
      length (fst (run N T tr g)) = nat (niter tr)
      \<and> length vals = nat (niter tr) \<and> length tests = nat (niter tr)
      \<and> (\<forall>i<nat (niter tr). \<exists>tri gi tr1 g1 elog tr2 g2.
            restarts T tr g i = Inr (tri, gi)
            \<and> Trainer_reset T tri gi = Inr (tr1, g1)
            \<and> epoch_loop T tr1 g1 [1..epochs tr] = (elog, Inr (tr2, g2))
            \<and> accuracy T (eval_mode T (model tr2)) (data tr) ''val'' = Inr (vals ! i)
            \<and> accuracy T (eval_mode T (model tr2)) (data tr) ''test'' = Inr (tests ! i))
      \<and> run_entry N T tr g ''val_acc'' = Inr (mean N vals)
      \<and> run_entry N T tr g ''test_acc'' = Inr (mean N tests)
      \<and> run_entry N T tr g ''test_acc_std'' = Inr (std N tests))
   \<and> (masks_nonempty T (data tr) \<and> checker_without_save tr \<longrightarrow>
        (\<exists>vals tests. run_lists T tr g = Inr (vals, tests)))"
proof (intro conjI impI)
  assume a: "run_lists T tr g = Inr (vals, tests)"
  obtain elogs out where rl: "restart_loop T tr g [0..niter tr - 1] [] [] = (elogs, out)"
    by (cases "restart_loop T tr g [0..niter tr - 1] [] []") auto
  obtain tr' g' where o: "out = Inr (tr', g', vals, tests)"
    using a rl by (auto simp: run_lists_def split: sum.splits)
  have f: "fst (run N T tr g) = elogs"
    using rl by (simp add: run_def split: sum.splits prod.splits)
  have len: "length elogs = nat (niter tr)"
    using restart_loop_result[OF rl[unfolded o]] by simp
  from restart_loop_lists[OF rl[unfolded o]] have
    r: "length vals = nat (niter tr)" "length tests = nat (niter tr)"
    and each: "\<forall>i<nat (niter tr). \<exists>tri gi elog tri' gi'.
               restarts T tr g i = Inr (tri, gi)
               \<and> restart T tri gi = (elog, Inr (tri', gi', vals ! i, tests ! i))"
    by simp_all
  show "length (fst (run N T tr g)) = nat (niter tr)" using f len by simp
  show "length vals = nat (niter tr)" by (rule r(1))
  show "length tests = nat (niter tr)" by (rule r(2))
  show "run_entry N T tr g ''val_acc'' = Inr (mean N vals)"
    and "run_entry N T tr g ''test_acc'' = Inr (mean N tests)"
    and "run_entry N T tr g ''test_acc_std'' = Inr (std N tests)"
    using run_lists_run(2)[OF a] by simp_all
  show "\<forall>i<nat (niter tr). \<exists>tri gi tr1 g1 elog tr2 g2.
            restarts T tr g i = Inr (tri, gi)
            \<and> Trainer_reset T tri gi = Inr (tr1, g1)
            \<and> epoch_loop T tr1 g1 [1..epochs tr] = (elog, Inr (tr2, g2))
            \<and> accuracy T (eval_mode T (model tr2)) (data tr) ''val'' = Inr (vals ! i)
            \<and> accuracy T (eval_mode T (model tr2)) (data tr) ''test'' = Inr (tests ! i)"
  proof (intro allI impI)
    fix i assume "i < nat (niter tr)"
    then obtain tri gi elog tri' gi' where
      s: "restarts T tr g i = Inr (tri, gi)"
      and t: "restart T tri gi = (elog, Inr (tri', gi', vals ! i, tests ! i))"
      using each by blast
    have "same_setup tr tri" using s by (rule restarts_setup)
    then have c: "epochs tri = epochs tr" "data tri = data tr"
      by (simp_all add: same_setup_def)
    from restart_accuracies[OF t] obtain tr1 g1 tr2 where
      "Trainer_reset T tri gi = Inr (tr1, g1)"
      "epoch_loop T tr1 g1 [1..epochs tri] = (elog, Inr (tr2, gi'))"
      "accuracy T (eval_mode T (model tr2)) (data tri) ''val'' = Inr (vals ! i)"
      "accuracy T (eval_mode T (model tr2)) (data tri) ''test'' = Inr (tests ! i)"
      by blast
    then show "\<exists>tri gi tr1 g1 elog tr2 g2.
            restarts T tr g i = Inr (tri, gi)
            \<and> Trainer_reset T tri gi = Inr (tr1, g1)
            \<and> epoch_loop T tr1 g1 [1..epochs tr] = (elog, Inr (tr2, g2))
            \<and> accuracy T (eval_mode T (model tr2)) (data tr) ''val'' = Inr (vals ! i)
            \<and> accuracy T (eval_mode T (model tr2)) (data tr) ''test'' = Inr (tests ! i)"
      using s c by auto
  qed
next
  assume "masks_nonempty T (data tr) \<and> checker_without_save tr"
  then obtain q where "snd (restart_loop T tr g [0..niter tr - 1] [] []) = Inr q"
    using restart_loop_safe[of T tr g "[0..niter tr - 1]" "[]" "[]"] by blast
  then show "\<exists>vals tests. run_lists T tr g = Inr (vals, tests)"
    by (cases q) (simp add: run_lists_def)
qed

theorem run_statistics_witness:
  "run_lists demo_torch (demo_trainer 1 2) 0 = Inr ([Fin 0, Fin (1/2)], [Fin 0, Fin 1])
   \<and> masks_nonempty demo_torch (data (demo_trainer 1 2))
   \<and> checker_without_save (demo_trainer 1 2)
   \<and> length (fst (run demo_numpy demo_torch (demo_trainer 1 2) 0)) = 2
   \<and> run_entry demo_numpy demo_torch (demo_trainer 1 2) 0 ''val_acc'' = Inr (Fin (1/4))
   \<and> run_entry demo_numpy demo_torch (demo_trainer 1 2) 0 ''test_acc'' = Inr (Fin (1/2))
   \<and> run_entry demo_numpy demo_torch (demo_trainer 1 2) 0 ''test_acc_std'' = Inr (Fin (1/2))"
proof -
  have n: "niter (demo_trainer 1 2) = 2" by (simp add: demo_trainer_def)
  have m: "masks_nonempty demo_torch (data (demo_trainer 1 2))"
    by (simp add: masks_nonempty_def demo_torch_def)
  have c: "checker_without_save (demo_trainer 1 2)"
    by (simp add: checker_without_save_def demo_trainer_def)
  show ?thesis
    using run_statistics [of demo_torch "demo_trainer 1 2" 0 "[Fin 0, Fin (1/2)]"
            "[Fin 0, Fin 1]" demo_numpy] m c
    by (simp add: demo_run_lists n demo_mean demo_std)
qed

text \<open>
  Claim C1 as stated fails twice. With the variance under \<^verbatim>\<open>test_acc_std\<close>: two restarts
  with final test accuracies 0 and 1 give the entry 1/2, while the variance is 1/4.
  With the full schedule and a dictionary whatever happens: on a dataset whose test mask
  selects no node the first evaluation raises \<open>ZeroDivisionError\<close>, so \<^verbatim>\<open>run\<close> returns no
  dictionary and ends in the first of its two restarts.
\<close>

theorem run_std_is_not_variance:
  "run_lists demo_torch (demo_trainer 1 2) 0 = Inr ([Fin 0, Fin (1/2)], [Fin 0, Fin 1])
   \<and> run_entry demo_numpy demo_torch (demo_trainer 1 2) 0 ''test_acc_std'' = Inr (Fin (1/2))
   \<and> variance [Fin 0, Fin 1] = Fin (1/4)
   \<and> run_entry demo_numpy demo_torch (demo_trainer 1 2) 0 ''test_acc_std''
       \<noteq> Inr (variance [Fin 0, Fin 1])
   \<and> run demo_numpy demo_torch_empty_test (demo_trainer 1 2) 0
       = ([[False]], Inl ZeroDivisionError)
   \<and> run_entry demo_numpy demo_torch_empty_test (demo_trainer 1 2) 0 ''test_acc_std''
       = Inl ZeroDivisionError
   \<and> niter (demo_trainer 1 2) = 2"
proof -
  have s: "run_entry demo_numpy demo_torch (demo_trainer 1 2) 0 ''test_acc_std''
             = Inr (Fin (1/2))"
    using run_lists_run(2)[OF demo_run_lists, of demo_numpy] by (simp add: demo_std)
  have r: "run demo_numpy demo_torch_empty_test (demo_trainer 1 2) 0
             = ([[False]], Inl ZeroDivisionError)"
    by (simp add: demo_run_empty_test)
  have e: "run_entry demo_numpy demo_torch_empty_test (demo_trainer 1 2) 0 ''test_acc_std''
             = Inl ZeroDivisionError"
    by (simp add: run_entry_def r)
  have n: "niter (demo_trainer 1 2) = 2" by (simp add: demo_trainer_def)
  show ?thesis using demo_run_lists s demo_variance r e n by simp
qed

end
